theory Spec2Isabelle
  imports Main "HOL-Library.Word"
begin

section \<open>The news ingestion pipeline of Django_WebScraping\<close>

text \<open>
  A shallow embedding of \<^verbatim>\<open>news/management/commands/scrape_news.py\<close> and of
  \<^verbatim>\<open>NewsArticle.save\<close> in \<^verbatim>\<open>news/models.py\<close>.

  Python strings are modelled by \<^typ>\<open>string\<close>: a list of code points in the range 0..255,
  so that \<open>length\<close> counts code points as Python's \<^verbatim>\<open>len\<close> does. Exceptions are
  values of the type \<open>error\<close>; the database is an explicit state.
\<close>

subsection \<open>SHA-256, as \<^verbatim>\<open>hashlib.sha256\<close> computes it (FIPS 180-4)\<close>

text \<open>
  \<^verbatim>\<open>hashlib.sha256(b).hexdigest()\<close> is a library call; the functions of this subsection
  follow the standard: padding to a multiple of 64 bytes, sixteen big-endian words per block,
  the message schedule of 64 words, 64 rounds of the compression function, and the digest as
  32 bytes written with two lowercase hexadecimal digits each.
\<close>

unbundle bit_operations_syntax

type_synonym byte = "8 word"
type_synonym w32 = "32 word"

definition rotr :: "nat \<Rightarrow> w32 \<Rightarrow> w32" where
  "rotr n x = drop_bit n x OR push_bit (32 - n) x"

definition Ch :: "w32 \<Rightarrow> w32 \<Rightarrow> w32 \<Rightarrow> w32" where
  "Ch x y z = (x AND y) XOR (NOT x AND z)"

definition Maj :: "w32 \<Rightarrow> w32 \<Rightarrow> w32 \<Rightarrow> w32" where
  "Maj x y z = (x AND y) XOR (x AND z) XOR (y AND z)"

definition bsig0 :: "w32 \<Rightarrow> w32" where
  "bsig0 x = rotr 2 x XOR rotr 13 x XOR rotr 22 x"

definition bsig1 :: "w32 \<Rightarrow> w32" where
  "bsig1 x = rotr 6 x XOR rotr 11 x XOR rotr 25 x"

definition ssig0 :: "w32 \<Rightarrow> w32" where
  "ssig0 x = rotr 7 x XOR rotr 18 x XOR drop_bit 3 x"

definition ssig1 :: "w32 \<Rightarrow> w32" where
  "ssig1 x = rotr 17 x XOR rotr 19 x XOR drop_bit 10 x"

definition sha256_K :: "w32 list" where
  "sha256_K = [
    0x428A2F98, 0x71374491, 0xB5C0FBCF, 0xE9B5DBA5, 0x3956C25B, 0x59F111F1, 0x923F82A4, 0xAB1C5ED5,
    0xD807AA98, 0x12835B01, 0x243185BE, 0x550C7DC3, 0x72BE5D74, 0x80DEB1FE, 0x9BDC06A7, 0xC19BF174,
    0xE49B69C1, 0xEFBE4786, 0x0FC19DC6, 0x240CA1CC, 0x2DE92C6F, 0x4A7484AA, 0x5CB0A9DC, 0x76F988DA,
    0x983E5152, 0xA831C66D, 0xB00327C8, 0xBF597FC7, 0xC6E00BF3, 0xD5A79147, 0x06CA6351, 0x14292967,
    0x27B70A85, 0x2E1B2138, 0x4D2C6DFC, 0x53380D13, 0x650A7354, 0x766A0ABB, 0x81C2C92E, 0x92722C85,
    0xA2BFE8A1, 0xA81A664B, 0xC24B8B70, 0xC76C51A3, 0xD192E819, 0xD6990624, 0xF40E3585, 0x106AA070,
    0x19A4C116, 0x1E376C08, 0x2748774C, 0x34B0BCB5, 0x391C0CB3, 0x4ED8AA4A, 0x5B9CCA4F, 0x682E6FF3,
    0x748F82EE, 0x78A5636F, 0x84C87814, 0x8CC70208, 0x90BEFFFA, 0xA4506CEB, 0xBEF9A3F7, 0xC67178F2]"

type_synonym hstate = "w32 \<times> w32 \<times> w32 \<times> w32 \<times> w32 \<times> w32 \<times> w32 \<times> w32"

definition sha256_H0 :: hstate where
  "sha256_H0 = (0x6A09E667, 0xBB67AE85, 0x3C6EF372, 0xA54FF53A,
                0x510E527F, 0x9B05688C, 0x1F83D9AB, 0x5BE0CD19)"

fun be32 :: "byte list \<Rightarrow> w32" where
  "be32 [b0, b1, b2, b3] =
     push_bit 24 (ucast b0) OR push_bit 16 (ucast b1) OR push_bit 8 (ucast b2) OR ucast b3"
| "be32 _ = 0"

fun chunks :: "nat \<Rightarrow> 'a list \<Rightarrow> 'a list list" where
  "chunks 0 xs = []"
| "chunks (Suc n) xs = take 4 xs # chunks n (drop 4 xs)"

definition block_words :: "byte list \<Rightarrow> w32 list" where
  "block_words blk = map be32 (chunks 16 blk)"

fun schedule :: "nat \<Rightarrow> w32 list \<Rightarrow> w32 list" where
  "schedule 0 w = w"
| "schedule (Suc n) w =
     (let t = length w
      in schedule n (w @ [ssig1 (w ! (t - 2)) + w ! (t - 7) + ssig0 (w ! (t - 15)) + w ! (t - 16)]))"

fun sha_round :: "hstate \<Rightarrow> w32 \<times> w32 \<Rightarrow> hstate" where
  "sha_round (a, b, c, d, e, f, g, h) (k, w) =
     (let t1 = h + bsig1 e + Ch e f g + k + w;
          t2 = bsig0 a + Maj a b c
      in (t1 + t2, a, b, c, d + t1, e, f, g))"

fun hadd :: "hstate \<Rightarrow> hstate \<Rightarrow> hstate" where
  "hadd (a, b, c, d, e, f, g, h) (a', b', c', d', e', f', g', h') =
     (a + a', b + b', c + c', d + d', e + e', f + f', g + g', h + h')"

definition compress :: "hstate \<Rightarrow> byte list \<Rightarrow> hstate" where
  "compress H blk = hadd H (foldl sha_round H (zip sha256_K (schedule 48 (block_words blk))))"

definition be_bytes :: "nat \<Rightarrow> nat \<Rightarrow> byte list" where
  "be_bytes n v = map (\<lambda>i. of_nat (v div 256 ^ (n - 1 - i))) [0..<n]"

definition pad :: "byte list \<Rightarrow> byte list" where
  "pad m = m @ [0x80] @ replicate ((119 - length m mod 64) mod 64) 0 @ be_bytes 8 (8 * length m)"

function blocks :: "byte list \<Rightarrow> byte list list" where
  "blocks bs = (if length bs < 64 then [] else take 64 bs # blocks (drop 64 bs))"
  by pat_completeness auto
termination
  by (relation "measure length") auto

fun hbytes :: "hstate \<Rightarrow> byte list" where
  "hbytes (a, b, c, d, e, f, g, h) =
     concat (map (\<lambda>w. [ucast (drop_bit 24 w), ucast (drop_bit 16 w), ucast (drop_bit 8 w), ucast w])
       [a, b, c, d, e, f, g, h])"

definition sha256 :: "byte list \<Rightarrow> byte list" where
  "sha256 m = hbytes (foldl compress sha256_H0 (blocks (pad m)))"

definition hex_digit :: "nat \<Rightarrow> char" where
  "hex_digit d = ''0123456789abcdef'' ! d"

definition hex_byte :: "byte \<Rightarrow> string" where
  "hex_byte b = [hex_digit (unat b div 16), hex_digit (unat b mod 16)]"

definition hexdigest :: "byte list \<Rightarrow> string" where
  "hexdigest m = concat (map hex_byte (sha256 m))"

subsection \<open>Strings and their UTF-8 encoding\<close>

text \<open>\<^verbatim>\<open>str.encode()\<close>: UTF-8, one byte below 128 and two bytes from 128 to 255.\<close>

definition encode_char :: "char \<Rightarrow> byte list" where
  "encode_char c =
     (let n = (of_char c :: nat)
      in if n < 128 then [of_nat n] else [of_nat (192 + n div 64), of_nat (128 + n mod 64)])"

definition encode :: "string \<Rightarrow> byte list" where
  "encode s = concat (map encode_char s)"

definition startswith :: "string \<Rightarrow> string \<Rightarrow> bool" where
  "startswith s p = (take (length p) s = p)"

text \<open>\<^verbatim>\<open>p in s\<close> on strings: \<open>p\<close> occurs in \<open>s\<close> as a contiguous substring.\<close>

fun contains :: "string \<Rightarrow> string \<Rightarrow> bool" where
  "contains [] p = (p = [])"
| "contains (c # cs) p = (startswith (c # cs) p \<or> contains cs p)"

text \<open>\<^verbatim>\<open>str.isspace\<close>, which is what \<^verbatim>\<open>\s\<close> matches in a str pattern, on 0..255.\<close>

definition is_space :: "char \<Rightarrow> bool" where
  "is_space c =
     (let n = (of_char c :: nat)
      in (9 \<le> n \<and> n \<le> 13) \<or> (28 \<le> n \<and> n \<le> 32) \<or> n = 133 \<or> n = 160)"

text \<open>\<^verbatim>\<open>str.lower\<close> on 0..255: A-Z, and the Latin-1 capitals except the multiplication sign.\<close>

definition lower_char :: "char \<Rightarrow> char" where
  "lower_char c =
     (let n = (of_char c :: nat)
      in if (65 \<le> n \<and> n \<le> 90) \<or> (192 \<le> n \<and> n \<le> 222 \<and> n \<noteq> 215)
         then char_of (n + 32) else c)"

definition lower :: "string \<Rightarrow> string" where
  "lower s = map lower_char s"

text \<open>\<^verbatim>\<open>str.strip()\<close> without argument removes white space at both ends.\<close>

definition strip :: "string \<Rightarrow> string" where
  "strip s = rev (dropWhile is_space (rev (dropWhile is_space s)))"

text \<open>\<^verbatim>\<open>str(n)\<close> for a non-negative integer: its decimal digits.\<close>

definition digit_char :: "nat \<Rightarrow> char" where
  "digit_char d = char_of (48 + d)"

fun str_nat :: "nat \<Rightarrow> string" where
  "str_nat n = (if n < 10 then [digit_char n] else str_nat (n div 10) @ [digit_char (n mod 10)])"

declare str_nat.simps [simp del]

subsection \<open>Data model\<close>

type_synonym date = nat

text \<open>The exceptions that occur, each with the text of its message.\<close>

datatype error =
    KeyError string
  | CommandError string
  | ValidationError string
  | DoesNotExist string
  | MultipleObjectsReturned string

text \<open>\<^verbatim>\<open>str(e)\<close>, as the f-strings of the source format an exception.\<close>

fun str_error :: "error \<Rightarrow> string" where
  "str_error (KeyError k) = [CHR 0x27] @ k @ [CHR 0x27]"
| "str_error (CommandError m) = m"
| "str_error (ValidationError m) = m"
| "str_error (DoesNotExist m) = m"
| "str_error (MultipleObjectsReturned m) = m"

text \<open>The messages of \<^verbatim>\<open>QuerySet.get\<close> for no row and for \<open>n\<close> rows.\<close>

definition does_not_exist_message :: "string \<Rightarrow> string" where
  "does_not_exist_message model = model @ '' matching query does not exist.''"

definition multiple_objects_message :: "string \<Rightarrow> nat \<Rightarrow> string" where
  "multiple_objects_message model n =
     ''get() returned more than one '' @ model @ '' -- it returned ''
       @ (if n < 21 then str_nat n else ''more than 20'') @ ''!''"

text \<open>
  The dictionary \<^verbatim>\<open>article_data\<close>. Every producer in the source sets the first four
  keys; \<^verbatim>\<open>'publication_date'\<close> is set by the two scrapers and missing in the canned
  test articles, hence the option.
\<close>

record article_data =
  ad_title :: string
  ad_summary :: string
  ad_source_url :: string
  ad_source_name :: string
  ad_publication_date :: "date option"

record NewsArticle =
  title :: string
  summary :: string
  source_url :: string
  source_name :: string
  publication_date :: date
  content_hash :: string
  slug :: string

text \<open>
  The database: the root page of every site that is marked as default site, the parent page
  of every \<^verbatim>\<open>NewsListPage\<close>, and the rows of \<^verbatim>\<open>NewsArticle\<close> in insertion order.
\<close>

record db =
  default_sites :: "nat list"
  list_pages :: "nat list"
  articles :: "NewsArticle list"

text \<open>
  What the page framework does when a page is written, as far as the pipeline depends on it.
  \<^verbatim>\<open>Page.full_clean\<close> first fills an empty slug from the title (\<open>autoslug\<close>, which
  may look at the stored pages to avoid a slug in use, and which is empty when the title
  gives nothing), then validates the page: \<open>validate\<close> is \<open>None\<close> for a page that is
  accepted and the text of the \<^verbatim>\<open>ValidationError\<close> otherwise.
  \<open>validate_list_page\<close> does the same for the list page that is to be added below a root
  page.
\<close>

record framework =
  autoslug :: "NewsArticle list \<Rightarrow> string \<Rightarrow> string"
  validate :: "NewsArticle list \<Rightarrow> NewsArticle \<Rightarrow> string option"
  validate_list_page :: "db \<Rightarrow> nat \<Rightarrow> string option"

definition full_clean :: "framework \<Rightarrow> NewsArticle list \<Rightarrow> NewsArticle \<Rightarrow> error + NewsArticle" where
  "full_clean fw rows a =
     (let a = (if slug a = [] then a\<lparr>slug := autoslug fw rows (title a)\<rparr> else a)
      in case validate fw rows a of
           Some m \<Rightarrow> Inl (ValidationError m)
         | None \<Rightarrow> Inr a)"

datatype outcome = Created | Updated | Skipped

subsection \<open>\<^verbatim>\<open>NewsArticle.save\<close>\<close>

definition save :: "NewsArticle \<Rightarrow> NewsArticle" where
  "save a =
     (if content_hash a = []
      then a\<lparr>content_hash := hexdigest (encode (title a @ summary a @ source_url a))\<rparr>
      else a)"

subsection \<open>\<^verbatim>\<open>Command._create_slug\<close>\<close>

text \<open>\<^verbatim>\<open>re.sub(r'[^a-zA-Z0-9\s-]', '', s)\<close> deletes every character outside the class.\<close>

definition slug_class :: "char \<Rightarrow> bool" where
  "slug_class c =
     (let n = (of_char c :: nat)
      in (97 \<le> n \<and> n \<le> 122) \<or> (65 \<le> n \<and> n \<le> 90) \<or> (48 \<le> n \<and> n \<le> 57)
         \<or> is_space c \<or> c = CHR ''-'')"

definition sub_special :: "string \<Rightarrow> string" where
  "sub_special s = filter slug_class s"

text \<open>\<^verbatim>\<open>re.sub(r'\s+', '-', s)\<close> replaces every maximal run of white space by one hyphen.\<close>

function sub_spaces :: "string \<Rightarrow> string" where
  "sub_spaces [] = []"
| "sub_spaces (c # cs) =
     (if is_space c then CHR ''-'' # sub_spaces (dropWhile is_space cs) else c # sub_spaces cs)"
  by pat_completeness auto
termination
  by (relation "measure length") (auto simp: le_imp_less_Suc length_dropWhile_le)

definition strip_hyphens :: "string \<Rightarrow> string" where
  "strip_hyphens s =
     rev (dropWhile (\<lambda>c. c = CHR ''-'') (rev (dropWhile (\<lambda>c. c = CHR ''-'') s)))"

definition base_slug :: "string \<Rightarrow> string" where
  "base_slug t = take 50 (strip_hyphens (sub_spaces (sub_special (lower t))))"

definition slug_exists :: "NewsArticle list \<Rightarrow> string \<Rightarrow> bool" where
  "slug_exists rows s = (\<exists>a \<in> set rows. slug a = s)"

definition numbered :: "string \<Rightarrow> nat \<Rightarrow> string" where
  "numbered b k = b @ ''-'' @ str_nat k"
text \<open>
  The loop \<^verbatim>\<open>while NewsArticle.objects.filter(slug=slug).exists()\<close>, with the loop
  variables \<open>counter\<close> and \<open>slug\<close> as arguments.
\<close>

function unique_slug :: "NewsArticle list \<Rightarrow> string \<Rightarrow> nat \<Rightarrow> string \<Rightarrow> string" where
  "unique_slug rows b counter s =
     (if slug_exists rows s then unique_slug rows b (counter + 1) (numbered b counter) else s)"
  by pat_completeness auto
termination
proof -
  have digit_inj: "a = c" if "digit_char a = digit_char c" "a < 10" "c < 10" for a c :: nat
  proof -
    from that(1) have "(of_char (char_of (48 + a)) :: nat) = of_char (char_of (48 + c))"
      by (simp add: digit_char_def)
    with that(2,3) show ?thesis by simp
  qed
  have str_not_Nil: "str_nat n \<noteq> []" for n
    by (subst str_nat.simps) simp
  have str_inj: "str_nat n = str_nat m \<Longrightarrow> n = m" for n m
  proof (induct n arbitrary: m rule: str_nat.induct)
    case (1 n)
    show ?case
    proof (cases "n < 10")
      case small_n: True
      show ?thesis
      proof (cases "m < 10")
        case True
        with small_n "1.prems" have "digit_char n = digit_char m"
          by (simp add: str_nat.simps [of n] str_nat.simps [of m])
        with small_n True show ?thesis by (rule_tac digit_inj)
      next
        case False
        with small_n "1.prems" have "str_nat (m div 10) = []"
          by (simp add: str_nat.simps [of n] str_nat.simps [of m])
        with str_not_Nil show ?thesis by blast
      qed
    next
      case big_n: False
      show ?thesis
      proof (cases "m < 10")
        case True
        with big_n "1.prems" have "str_nat (n div 10) = []"
          by (simp add: str_nat.simps [of n] str_nat.simps [of m])
        with str_not_Nil show ?thesis by blast
      next
        case False
        with big_n "1.prems"
        have e: "str_nat (n div 10) = str_nat (m div 10)"
          and d: "digit_char (n mod 10) = digit_char (m mod 10)"
          by (simp_all add: str_nat.simps [of n] str_nat.simps [of m])
        from e big_n have "n div 10 = m div 10" by (rule "1.hyps" [rotated])
        moreover from d have "n mod 10 = m mod 10" by (rule digit_inj) simp_all
        ultimately show ?thesis by (metis div_mult_mod_eq)
      qed
    qed
  qed
  have numbered_inj: "inj (numbered b)" for b
    by (rule injI) (simp add: numbered_def str_inj)
  have fin: "finite {k. c \<le> k \<and> slug_exists rows (numbered b k)}" for c rows b
  proof -
    have "{k. c \<le> k \<and> slug_exists rows (numbered b k)} \<subseteq> numbered b -` (slug ` set rows)"
      by (auto simp: slug_exists_def intro: image_eqI [OF sym])
    moreover have "finite (numbered b -` (slug ` set rows))"
      by (rule finite_vimageI [OF _ numbered_inj]) simp
    ultimately show ?thesis by (rule finite_subset)
  qed
  let ?A = "\<lambda>rows b c. {k. c \<le> k \<and> slug_exists rows (numbered b k)}"
  let ?m = "\<lambda>(rows, b, c, s). 2 * card (?A rows b c) + (if slug_exists rows s then 1 else 0 :: nat)"
  show ?thesis
  proof (relation "measure ?m")
    show "wf (measure ?m)" by simp
  next
    fix rows b counter s
    assume "slug_exists rows s"
    have split: "?A rows b (counter + 1) = ?A rows b counter - {counter}"
      by auto
    show "((rows, b, counter + 1, numbered b counter), rows, b, counter, s) \<in> measure ?m"
    proof (cases "slug_exists rows (numbered b counter)")
      case True
      then have "counter \<in> ?A rows b counter" by simp
      with fin [of counter rows b]
      have "card (?A rows b (counter + 1)) < card (?A rows b counter)"
        unfolding split by (rule_tac card_Diff1_less)
      with True \<open>slug_exists rows s\<close> show ?thesis by simp
    next
      case False
      then have "?A rows b (counter + 1) = ?A rows b counter"
        by (auto simp: le_less Suc_le_eq)
      with False \<open>slug_exists rows s\<close> show ?thesis by simp
    qed
  qed
qed

declare unique_slug.simps [simp del]

definition create_slug :: "NewsArticle list \<Rightarrow> string \<Rightarrow> string" where
  "create_slug rows t = (let b = base_slug t in unique_slug rows b 1 b)"

subsection \<open>\<^verbatim>\<open>Command._process_article\<close>\<close>

text \<open>
  \<^verbatim>\<open>NewsArticle.objects.get(content_hash=h)\<close>: no row raises \<^verbatim>\<open>DoesNotExist\<close>
  (the result \<open>None\<close>, handled by the caller), several rows raise.
\<close>

definition objects_get :: "NewsArticle list \<Rightarrow> string \<Rightarrow> error + NewsArticle option" where
  "objects_get rows h =
     (case filter (\<lambda>a. content_hash a = h) rows of
        [] \<Rightarrow> Inr None
      | [a] \<Rightarrow> Inr (Some a)
      | found \<Rightarrow> Inl (MultipleObjectsReturned
                       (multiple_objects_message ''NewsArticle'' (length found))))"

definition fingerprint :: "article_data \<Rightarrow> string" where
  "fingerprint d =
     (let content_for_hash = ad_title d @ ad_summary d @ ad_source_url d
      in hexdigest (encode content_for_hash))"

text \<open>
  A raised exception is the result \<open>Inl\<close>; the database is then the one before the call.
  Both \<^verbatim>\<open>add_child\<close> and \<^verbatim>\<open>save_revision\<close> clean the page before anything is
  written, and the page written is the cleaned one, passed through \<^verbatim>\<open>NewsArticle.save\<close>.
\<close>

definition process_article ::
  "framework \<Rightarrow> db \<Rightarrow> article_data \<Rightarrow> bool \<Rightarrow> error + (outcome \<times> db)" where
  "process_article fw st d force_update =
     (let h = fingerprint d
      in case objects_get (articles st) h of
           Inl e \<Rightarrow> Inl e
         | Inr (Some existing_article) \<Rightarrow>
             if \<not> force_update then Inr (Skipped, st)
             else (case ad_publication_date d of
                     None \<Rightarrow> Inl (KeyError ''publication_date'')
                   | Some pd \<Rightarrow>
                       (case full_clean fw (articles st)
                               (existing_article\<lparr>title := ad_title d, summary := ad_summary d,
                                  publication_date := pd, source_name := ad_source_name d\<rparr>) of
                          Inl e \<Rightarrow> Inl e
                        | Inr a \<Rightarrow>
                            Inr (Updated,
                              st\<lparr>articles :=
                                   map (\<lambda>r. if content_hash r = h then save a else r) (articles st)\<rparr>)))
         | Inr None \<Rightarrow>
             if list_pages st = []
             then Inl (CommandError ''No news list page found. Please run the command again.'')
             else
               let sl = create_slug (articles st) (ad_title d)
               in (case ad_publication_date d of
                     None \<Rightarrow> Inl (KeyError ''publication_date'')
                   | Some pd \<Rightarrow>
                       (case full_clean fw (articles st)
                               \<lparr>title = ad_title d, summary = ad_summary d,
                                source_url = ad_source_url d, source_name = ad_source_name d,
                                publication_date = pd, content_hash = h, slug = sl\<rparr> of
                          Inl e \<Rightarrow> Inl e
                        | Inr a \<Rightarrow> Inr (Created, st\<lparr>articles := articles st @ [save a]\<rparr>))))"

subsection \<open>\<^verbatim>\<open>Command._ensure_news_list_page\<close>\<close>

text \<open>
  \<^verbatim>\<open>Site.objects.get(is_default_site=True)\<close> raises unless there is exactly one default
  site; adding the list page below its root page raises when the framework rejects that
  page (for instance because the slug \<^verbatim>\<open>news\<close> is in use there). Every exception \<open>e\<close>
  is turned into a \<^verbatim>\<open>CommandError\<close> whose text ends with \<^verbatim>\<open>str(e)\<close>.
\<close>

definition ensure_failed :: "error \<Rightarrow> error" where
  "ensure_failed e = CommandError (''Failed to create news list page: '' @ str_error e)"

definition ensure_news_list_page :: "framework \<Rightarrow> db \<Rightarrow> error + db" where
  "ensure_news_list_page fw st =
     (case default_sites st of
        [] \<Rightarrow> Inl (ensure_failed (DoesNotExist (does_not_exist_message ''Site'')))
      | [root_page] \<Rightarrow>
          if root_page \<in> set (list_pages st) then Inr st
          else (case validate_list_page fw st root_page of
                  Some m \<Rightarrow> Inl (ensure_failed (ValidationError m))
                | None \<Rightarrow> Inr (st\<lparr>list_pages := list_pages st @ [root_page]\<rparr>))
      | sites \<Rightarrow> Inl (ensure_failed (MultipleObjectsReturned
                              (multiple_objects_message ''Site'' (length sites)))))"

subsection \<open>The scrapers\<close>

text \<open>\<^verbatim>\<open>xs[:n]\<close> for any integer \<open>n\<close>.\<close>

definition py_take :: "int \<Rightarrow> 'a list \<Rightarrow> 'a list" where
  "py_take n xs = (if 0 \<le> n then take (nat n) xs else take (length xs - nat (- n)) xs)"

text \<open>
  A story row of the parsed front page: the \<^verbatim>\<open>titleline\<close> span if there is one, and in
  it the first anchor if there is one, with its stripped text and its \<^verbatim>\<open>href\<close>.
\<close>

record anchor =
  a_text :: string
  a_href :: "string option"

datatype story_row = StoryRow "anchor option option"

fun hn_article :: "date \<Rightarrow> story_row \<Rightarrow> article_data option" where
  "hn_article today (StoryRow None) = None"
| "hn_article today (StoryRow (Some None)) = None"
| "hn_article today (StoryRow (Some (Some title_link))) =
     (let t = a_text title_link;
          link = (case a_href title_link of None \<Rightarrow> [] | Some l \<Rightarrow> l)
      in if \<not> startswith link ''item?'' \<and> \<not> startswith link ''http'' then None
         else
           let link = (if startswith link ''item?'' then ''https://news.ycombinator.com/'' @ link
                       else link);
               s = ''Latest story from Hacker News: '' @ t;
               s = (if length s > 200 then take 200 s @ ''...'' else s)
           in Some \<lparr>ad_title = t, ad_summary = s, ad_source_url = link,
                    ad_source_name = ''Hacker News'', ad_publication_date = Some today\<rparr>)"

text \<open>The argument is \<open>None\<close> when the request or the parser raised.\<close>

definition scrape_hacker_news :: "date \<Rightarrow> story_row list option \<Rightarrow> int \<Rightarrow> article_data list" where
  "scrape_hacker_news today page max_articles =
     (case page of
        None \<Rightarrow> []
      | Some story_rows \<Rightarrow> List.map_filter (hn_article today) (py_take max_articles story_rows))"

text \<open>
  The \<^verbatim>\<open>data\<close> dictionary of a post of the JSON feed; a field is absent or a string.
\<close>

record post_data =
  p_title :: "string option"
  p_url :: "string option"
  p_permalink :: "string option"
  p_selftext :: "string option"

definition get_or_empty :: "string option \<Rightarrow> string" where
  "get_or_empty v = (case v of None \<Rightarrow> [] | Some s \<Rightarrow> s)"

text \<open>One pass of the loop body: \<open>Inl\<close> is the exception that the loop catches.\<close>

definition reddit_article :: "date \<Rightarrow> post_data \<Rightarrow> error + article_data option" where
  "reddit_article today p =
     (let t = strip (get_or_empty (p_title p))
      in if t = [] then Inr None
         else
           let u = get_or_empty (p_url p)
           in (case (if startswith u ''/r/'' \<or> contains u ''reddit.com''
                     then (case p_permalink p of
                             None \<Rightarrow> Inl (KeyError ''permalink'')
                           | Some pl \<Rightarrow> Inr (''https://reddit.com'' @ pl))
                     else Inr u) of
                 Inl e \<Rightarrow> Inl e
               | Inr u' \<Rightarrow>
                   let selftext = get_or_empty (p_selftext p);
                       s = (if selftext \<noteq> []
                            then (if length selftext > 200 then take 200 selftext @ ''...''
                                  else selftext)
                            else
                              (let s0 = ''Programming discussion: '' @ t
                               in if length s0 > 200 then take 200 s0 @ ''...'' else s0))
                   in Inr (Some \<lparr>ad_title = t, ad_summary = s, ad_source_url = u',
                                 ad_source_name = ''Reddit Programming'',
                                 ad_publication_date = Some today\<rparr>)))"

definition reddit_entry :: "date \<Rightarrow> post_data \<Rightarrow> article_data option" where
  "reddit_entry today p = (case reddit_article today p of Inl e \<Rightarrow> None | Inr r \<Rightarrow> r)"

definition scrape_reddit_programming ::
  "date \<Rightarrow> post_data list option \<Rightarrow> int \<Rightarrow> article_data list" where
  "scrape_reddit_programming today feed max_articles =
     (case feed of
        None \<Rightarrow> []
      | Some children \<Rightarrow> List.map_filter (reddit_entry today) (py_take max_articles children))"

subsection \<open>\<^verbatim>\<open>Command.handle\<close> and \<^verbatim>\<open>Command._create_test_articles\<close>\<close>

text \<open>The lines written to standard output that carry data, and the entries of the error log.\<close>

datatype message =
    MsgCreated string
  | MsgUpdated string
  | MsgSkipped string
  | MsgFailed string error
  | MsgWouldCreate string
  | MsgComplete nat nat nat
  | MsgDryRunComplete nat
  | MsgNoArticles
  | MsgWouldCreateTest string
  | MsgCreatedTest string
  | MsgSkippedTest string
  | MsgFailedTest error
  | MsgTestComplete nat

record run =
  run_db :: db
  created_count :: nat
  updated_count :: nat
  skipped_count :: nat
  stdout :: "message list"
  logged :: "(string \<times> error) list"

definition start_run :: "db \<Rightarrow> run" where
  "start_run st = \<lparr>run_db = st, created_count = 0, updated_count = 0, skipped_count = 0,
                    stdout = [], logged = []\<rparr>"

text \<open>The body of the loop \<^verbatim>\<open>for article_data in all_articles\<close>.\<close>

definition handle_article ::
  "framework \<Rightarrow> bool \<Rightarrow> bool \<Rightarrow> run \<Rightarrow> article_data \<Rightarrow> run" where
  "handle_article fw dry_run force_update r d =
     (if dry_run then r\<lparr>stdout := stdout r @ [MsgWouldCreate (take 60 (ad_title d))]\<rparr>
      else
        case process_article fw (run_db r) d force_update of
          Inr (Created, st) \<Rightarrow>
            r\<lparr>run_db := st, created_count := created_count r + 1,
              stdout := stdout r @ [MsgCreated (take 60 (ad_title d))]\<rparr>
        | Inr (Updated, st) \<Rightarrow>
            r\<lparr>run_db := st, updated_count := updated_count r + 1,
              stdout := stdout r @ [MsgUpdated (take 60 (ad_title d))]\<rparr>
        | Inr (Skipped, st) \<Rightarrow>
            r\<lparr>run_db := st, skipped_count := skipped_count r + 1,
              stdout := stdout r @ [MsgSkipped (take 60 (ad_title d))]\<rparr>
        | Inl e \<Rightarrow>
            r\<lparr>stdout := stdout r @ [MsgFailed (take 60 (ad_title d)) e],
              logged := logged r @ [(ad_title d, e)]\<rparr>)"

definition process_articles ::
  "framework \<Rightarrow> bool \<Rightarrow> bool \<Rightarrow> run \<Rightarrow> article_data list \<Rightarrow> run" where
  "process_articles fw dry_run force_update r ds =
     foldl (handle_article fw dry_run force_update) r ds"

definition test_articles :: "article_data list" where
  "test_articles =
     [\<lparr>ad_title = ''Test Article: Python Django Framework Updates'',
       ad_summary = ''This is a test article about Django framework updates and new features for web development.'',
       ad_source_url = ''https://example.com/django-updates'',
       ad_source_name = ''Test Tech News'',
       ad_publication_date = None\<rparr>,
      \<lparr>ad_title = ''Test Article: AI and Machine Learning Trends'',
       ad_summary = ''A comprehensive overview of current artificial intelligence and machine learning trends in the tech industry.'',
       ad_source_url = ''https://example.com/ai-trends'',
       ad_source_name = ''Test AI News'',
       ad_publication_date = None\<rparr>,
      \<lparr>ad_title = ''Test Article: Web Development Best Practices'',
       ad_summary = ''Essential best practices for modern web development including security, performance, and maintainability.'',
       ad_source_url = ''https://example.com/web-dev-practices'',
       ad_source_name = ''Test Dev News'',
       ad_publication_date = None\<rparr>]"

definition test_article :: "framework \<Rightarrow> run \<Rightarrow> article_data \<Rightarrow> run" where
  "test_article fw r d =
     (case process_article fw (run_db r) d False of
        Inr (Created, st) \<Rightarrow>
          r\<lparr>run_db := st, created_count := created_count r + 1,
            stdout := stdout r @ [MsgCreatedTest (ad_title d)]\<rparr>
      | Inr (_, st) \<Rightarrow> r\<lparr>run_db := st, stdout := stdout r @ [MsgSkippedTest (ad_title d)]\<rparr>
      | Inl e \<Rightarrow> r\<lparr>stdout := stdout r @ [MsgFailedTest e]\<rparr>)"

definition create_test_articles :: "framework \<Rightarrow> bool \<Rightarrow> db \<Rightarrow> error + run" where
  "create_test_articles fw dry_run st =
     (if dry_run
      then Inr ((start_run st)\<lparr>stdout := map (\<lambda>d. MsgWouldCreateTest (ad_title d)) test_articles\<rparr>)
      else
        case ensure_news_list_page fw st of
          Inl e \<Rightarrow> Inl e
        | Inr st1 \<Rightarrow>
            let r = foldl (test_article fw) (start_run st1) test_articles
            in Inr (r\<lparr>stdout := stdout r @ [MsgTestComplete (created_count r)]\<rparr>))"

datatype source = HackerNews | Reddit | AllSources

record options =
  opt_max_articles :: int
  opt_source :: source
  opt_dry_run :: bool
  opt_force_update :: bool
  opt_test :: bool

text \<open>
  What a run takes from outside: the page framework, the current date, and the two
  fetched and parsed documents (\<open>None\<close> when fetching or parsing raised).
\<close>

record env =
  env_framework :: framework
  env_today :: date
  env_hn_page :: "story_row list option"
  env_reddit_feed :: "post_data list option"

text \<open>The list \<^verbatim>\<open>all_articles\<close> that \<^verbatim>\<open>handle\<close> collects from the selected sources.\<close>

definition all_articles :: "env \<Rightarrow> options \<Rightarrow> article_data list" where
  "all_articles ev opts =
     (let hn_articles =
            (if opt_source opts \<in> {HackerNews, AllSources}
             then scrape_hacker_news (env_today ev) (env_hn_page ev) (opt_max_articles opts)
             else []);
          reddit_articles =
            (if opt_source opts \<in> {Reddit, AllSources}
             then scrape_reddit_programming (env_today ev) (env_reddit_feed ev)
                    (opt_max_articles opts)
             else [])
      in hn_articles @ reddit_articles)"

definition handle :: "env \<Rightarrow> options \<Rightarrow> db \<Rightarrow> error + run" where
  "handle ev opts st =
     (if opt_test opts then create_test_articles (env_framework ev) (opt_dry_run opts) st
      else
        case (if \<not> opt_dry_run opts then ensure_news_list_page (env_framework ev) st else Inr st) of
          Inl e \<Rightarrow> Inl e
        | Inr st1 \<Rightarrow>
            if all_articles ev opts = [] then Inr ((start_run st1)\<lparr>stdout := [MsgNoArticles]\<rparr>)
            else
              let r = process_articles (env_framework ev) (opt_dry_run opts)
                        (opt_force_update opts) (start_run st1) (all_articles ev opts)
              in Inr (r\<lparr>stdout := stdout r @
                        [if \<not> opt_dry_run opts
                         then MsgComplete (created_count r) (updated_count r) (skipped_count r)
                         else MsgDryRunComplete (length (all_articles ev opts))]\<rparr>))"

subsection \<open>The specification's normalisation rules, as it words them\<close>

text \<open>
  Hard truncation to 200 characters, with the ellipsis marker appended exactly when the text
  is longer than that.
\<close>

definition spec_truncate :: "string \<Rightarrow> string" where
  "spec_truncate s = (if length s > 200 then take 200 s @ ''...'' else s)"

text \<open>
  The slug of a title before disambiguation: lowercase; strip every character that is not a
  lowercase letter, a digit, white space or a hyphen; collapse runs of white space to one
  hyphen; strip leading and trailing hyphens; truncate to 50 characters.
\<close>

definition spec_class :: "char \<Rightarrow> bool" where
  "spec_class c =
     (let n = (of_char c :: nat)
      in (97 \<le> n \<and> n \<le> 122) \<or> (48 \<le> n \<and> n \<le> 57) \<or> is_space c \<or> c = CHR ''-'')"

definition spec_slugify :: "string \<Rightarrow> string" where
  "spec_slugify t = take 50 (strip_hyphens (sub_spaces (filter spec_class (lower t))))"

text \<open>
  The results of \<^verbatim>\<open>_process_article\<close> for the articles of a loop, in order, each on the
  database that the articles before it left.
\<close>

fun run_results :: "framework \<Rightarrow> bool \<Rightarrow> db \<Rightarrow> article_data list \<Rightarrow> (error + outcome) list" where
  "run_results fw fu st [] = []"
| "run_results fw fu st (d # ds) =
     (case process_article fw st d fu of
        Inl e \<Rightarrow> Inl e # run_results fw fu st ds
      | Inr (oc, st') \<Rightarrow> Inr oc # run_results fw fu st' ds)"

section \<open>Properties\<close>

subsection \<open>The digest\<close>

lemma length_hbytes: "length (hbytes H) = 32"
  by (induct H rule: hbytes.induct) simp

lemma length_concat_hex_byte: "length (concat (map hex_byte bs)) = 2 * length bs"
  by (induct bs) (simp_all add: hex_byte_def)

lemma length_hexdigest: "length (hexdigest m) = 64"
  by (simp add: hexdigest_def sha256_def length_concat_hex_byte length_hbytes)

lemma hexdigest_not_Nil: "hexdigest m \<noteq> []"
  using length_hexdigest [of m] by auto

lemma hex_digit_in: "d < 16 \<Longrightarrow> hex_digit d \<in> set ''0123456789abcdef''"
  unfolding hex_digit_def by (rule nth_mem) simp

lemma two_in: "x \<in> S \<Longrightarrow> y \<in> S \<Longrightarrow> set [x, y] \<subseteq> S"
  by simp

lemma set_hex_byte: "set (hex_byte b) \<subseteq> set ''0123456789abcdef''"
proof -
  have "unat b < 256" using unsigned_less [of b] by simp
  then have d: "unat b div 16 < 16" and m: "unat b mod 16 < 16" by simp_all
  have hi: "hex_digit (unat b div 16) \<in> set ''0123456789abcdef''"
    using d by (rule hex_digit_in)
  have lo: "hex_digit (unat b mod 16) \<in> set ''0123456789abcdef''"
    using m by (rule hex_digit_in)
  from hi lo show ?thesis unfolding hex_byte_def by (rule two_in)
qed

lemma set_concat_hex_byte: "set (concat (map hex_byte bs)) \<subseteq> set ''0123456789abcdef''"
proof (induct bs)
  case Nil
  show ?case by simp
next
  case (Cons b bs)
  have "set (concat (map hex_byte (b # bs))) = set (hex_byte b) \<union> set (concat (map hex_byte bs))"
    by simp
  with Cons set_hex_byte [of b] show ?case by blast
qed

lemma set_hexdigest: "set (hexdigest m) \<subseteq> set ''0123456789abcdef''"
  unfolding hexdigest_def by (rule set_concat_hex_byte)

lemma encode_append: "encode (s @ t) = encode s @ encode t"
  by (simp add: encode_def)

lemma save_fixed: "content_hash a \<noteq> [] \<Longrightarrow> save a = a"
  by (simp add: save_def)

lemma length_fingerprint: "length (fingerprint d) = 64"
  by (simp add: fingerprint_def length_hexdigest)

lemma fingerprint_not_Nil: "fingerprint d \<noteq> []"
  using length_fingerprint [of d] by auto

lemma fingerprint_not_0f: "fingerprint d \<noteq> ''0f''"
  using length_fingerprint [of d] by auto

subsection \<open>The extractors\<close>

lemma set_map_filter_iff: "a \<in> set (List.map_filter f xs) \<longleftrightarrow> (\<exists>x \<in> set xs. f x = Some a)"
  by (induct xs) (auto simp: List.map_filter_simps split: option.splits)


lemma reddit_entry_fields:
  assumes "reddit_entry today p = Some a"
  shows "ad_title a = strip (get_or_empty (p_title p))"
    and "ad_summary a =
           (if get_or_empty (p_selftext p) \<noteq> [] then spec_truncate (get_or_empty (p_selftext p))
            else spec_truncate (''Programming discussion: '' @ ad_title a))"
    and "startswith (get_or_empty (p_url p)) ''/r/'' \<or> contains (get_or_empty (p_url p)) ''reddit.com''
           \<Longrightarrow> \<exists>pl. p_permalink p = Some pl \<and> ad_source_url a = ''https://reddit.com'' @ pl"
    and "\<not> (startswith (get_or_empty (p_url p)) ''/r/'' \<or> contains (get_or_empty (p_url p)) ''reddit.com'')
           \<Longrightarrow> ad_source_url a = get_or_empty (p_url p)"
  using assms
  by (auto simp: reddit_entry_def reddit_article_def Let_def spec_truncate_def
           split: if_splits option.splits sum.splits)

subsection \<open>Stored rows\<close>

lemma objects_get_Some:
  assumes "objects_get rows h = Inr (Some a)"
  shows "content_hash a = h" and "a \<in> set rows"
proof -
  from assms have "filter (\<lambda>r. content_hash r = h) rows = [a]"
    by (auto simp: objects_get_def split: list.splits)
  then have "a \<in> set (filter (\<lambda>r. content_hash r = h) rows)" by simp
  then show "content_hash a = h" and "a \<in> set rows" by simp_all
qed

subsection \<open>The orchestration loop\<close>


lemma handle_article_Inl:
  "process_article fw (run_db r) d fu = Inl e \<Longrightarrow>
   handle_article fw False fu r d
     = r\<lparr>stdout := stdout r @ [MsgFailed (take 60 (ad_title d)) e],
         logged := logged r @ [(ad_title d, e)]\<rparr>"
  by (simp add: handle_article_def)

lemma handle_article_Inr:
  "process_article fw (run_db r) d fu = Inr (oc, st') \<Longrightarrow>
   run_db (handle_article fw False fu r d) = st'
   \<and> logged (handle_article fw False fu r d) = logged r
   \<and> length (stdout (handle_article fw False fu r d)) = length (stdout r) + 1
   \<and> created_count (handle_article fw False fu r d)
       = created_count r + (if oc = Created then 1 else 0)
   \<and> updated_count (handle_article fw False fu r d)
       = updated_count r + (if oc = Updated then 1 else 0)
   \<and> skipped_count (handle_article fw False fu r d)
       = skipped_count r + (if oc = Skipped then 1 else 0)"
  by (cases oc) (simp_all add: handle_article_def)

lemma loop_trace:
  "length (run_results fw fu (run_db r) ds) = length ds
   \<and> created_count (foldl (handle_article fw False fu) r ds)
       = created_count r + count_list (run_results fw fu (run_db r) ds) (Inr Created)
   \<and> updated_count (foldl (handle_article fw False fu) r ds)
       = updated_count r + count_list (run_results fw fu (run_db r) ds) (Inr Updated)
   \<and> skipped_count (foldl (handle_article fw False fu) r ds)
       = skipped_count r + count_list (run_results fw fu (run_db r) ds) (Inr Skipped)
   \<and> logged (foldl (handle_article fw False fu) r ds)
       = logged r @ List.map_filter
           (\<lambda>(d, x). case x of Inl e \<Rightarrow> Some (ad_title d, e) | Inr oc \<Rightarrow> None)
           (zip ds (run_results fw fu (run_db r) ds))
   \<and> length (stdout (foldl (handle_article fw False fu) r ds)) = length (stdout r) + length ds"
proof (induct ds arbitrary: r)
  case Nil
  show ?case by (simp add: List.map_filter_simps)
next
  case (Cons d ds)
  show ?case
  proof (cases "process_article fw (run_db r) d fu")
    case (Inl e)
    from Cons [of "handle_article fw False fu r d"] Inl show ?thesis
      by (simp add: handle_article_Inl List.map_filter_simps)
  next
    case (Inr p)
    obtain oc st' where p: "p = (oc, st')" by (cases p)
    from handle_article_Inr [OF Inr [unfolded p]] Cons [of "handle_article fw False fu r d"] Inr p
    show ?thesis
      by (cases oc) (simp_all add: List.map_filter_simps)
  qed
qed

lemma run_results_length: "length (run_results fw fu st ds) = length ds"
  by (induct ds arbitrary: st) (auto split: sum.splits)

lemma trace_total:
  "count_list rs (Inr Created) + count_list rs (Inr Updated) + count_list rs (Inr Skipped)
     + length (List.map_filter
         (\<lambda>(d, x). case x of Inl e \<Rightarrow> Some (ad_title d, e) | Inr oc \<Rightarrow> None) (zip ds rs))
   = length rs" if "length rs = length ds"
  using that
proof (induct rs arbitrary: ds)
  case Nil
  show ?case by (simp add: List.map_filter_simps)
next
  case (Cons x rs)
  then obtain d ds' where ds: "ds = d # ds'" and l: "length rs = length ds'"
    by (cases ds) auto
  show ?case
  proof (cases x)
    case (Inl e)
    with Cons.hyps [OF l] show ?thesis
      unfolding ds by (simp add: List.map_filter_simps)
  next
    case (Inr oc)
    with Cons.hyps [OF l] show ?thesis
      unfolding ds by (cases oc) (simp_all add: List.map_filter_simps)
  qed
qed

lemma loop_stdout:
  "stdout (foldl (handle_article fw False fu) r ds)
   = stdout r @ map
       (\<lambda>(d, x). case x of
            Inl e \<Rightarrow> MsgFailed (take 60 (ad_title d)) e
          | Inr Created \<Rightarrow> MsgCreated (take 60 (ad_title d))
          | Inr Updated \<Rightarrow> MsgUpdated (take 60 (ad_title d))
          | Inr Skipped \<Rightarrow> MsgSkipped (take 60 (ad_title d)))
       (zip ds (run_results fw fu (run_db r) ds))"
proof (induct ds arbitrary: r)
  case Nil
  show ?case by simp
next
  case (Cons d ds)
  show ?case
  proof (cases "process_article fw (run_db r) d fu")
    case (Inl e)
    from Cons [of "handle_article fw False fu r d"] Inl show ?thesis
      by (simp add: handle_article_Inl)
  next
    case (Inr p)
    obtain oc st' where p: "p = (oc, st')" by (cases p)
    from Inr p have s: "stdout (handle_article fw False fu r d)
        = stdout r @ [case oc of Created \<Rightarrow> MsgCreated (take 60 (ad_title d))
                       | Updated \<Rightarrow> MsgUpdated (take 60 (ad_title d))
                       | Skipped \<Rightarrow> MsgSkipped (take 60 (ad_title d))]"
      by (cases oc) (simp_all add: handle_article_def)
    from handle_article_Inr [OF Inr [unfolded p]]
    have d: "run_db (handle_article fw False fu r d) = st'" by simp
    from Cons [of "handle_article fw False fu r d"] Inr p show ?thesis
      unfolding d s by (cases oc) simp_all
  qed
qed

subsection \<open>Slugs\<close>

lemma lower_char_not_upper:
  "\<not> (65 \<le> (of_char (lower_char c) :: nat) \<and> (of_char (lower_char c) :: nat) \<le> 90)"
  by (auto simp: lower_char_def Let_def)

lemma slug_class_lower: "slug_class (lower_char c) = spec_class (lower_char c)"
  using lower_char_not_upper [of c] by (auto simp: slug_class_def spec_class_def Let_def)

lemma sub_special_lower: "sub_special (lower t) = filter spec_class (lower t)"
  unfolding sub_special_def lower_def
  by (rule filter_cong) (auto simp: slug_class_lower)

lemma base_slug_spec: "base_slug t = spec_slugify t"
  by (simp add: base_slug_def spec_slugify_def sub_special_lower)

lemma not_space_hyphen: "\<not> is_space CHR ''-''"
  by (simp add: is_space_def)

lemma set_sub_spaces: "set (sub_spaces s) \<subseteq> {c \<in> set s. \<not> is_space c} \<union> {CHR ''-''}"
proof (induct s rule: sub_spaces.induct)
  case 1
  show ?case by simp
next
  case (2 c cs)
  show ?case
  proof (cases "is_space c")
    case True
    with 2 have "set (sub_spaces (dropWhile is_space cs))
                 \<subseteq> {x \<in> set (dropWhile is_space cs). \<not> is_space x} \<union> {CHR ''-''}"
      by simp
    moreover have "set (dropWhile is_space cs) \<subseteq> set cs"
      by (auto dest: set_dropWhileD)
    ultimately show ?thesis using True by auto
  next
    case False
    with 2 show ?thesis by auto
  qed
qed

lemma set_strip_hyphens: "set (strip_hyphens s) \<subseteq> set s"
  by (auto simp: strip_hyphens_def dest!: set_dropWhileD)

lemma base_slug_chars:
  assumes "c \<in> set (base_slug t)"
  shows "spec_class c \<and> \<not> is_space c"
proof -
  from assms have "c \<in> set (strip_hyphens (sub_spaces (filter spec_class (lower t))))"
    unfolding base_slug_spec spec_slugify_def by (rule in_set_takeD)
  with set_strip_hyphens have "c \<in> set (sub_spaces (filter spec_class (lower t)))"
    by blast
  with set_sub_spaces [of "filter spec_class (lower t)"]
  have "(c \<in> set (filter spec_class (lower t)) \<and> \<not> is_space c) \<or> c = CHR ''-''"
    by auto
  then show ?thesis
    using not_space_hyphen by (auto simp: spec_class_def)
qed

lemma unique_slug_fresh: "\<not> slug_exists rows (unique_slug rows b counter s)"
proof (induct rows b counter s rule: unique_slug.induct)
  case (1 rows b counter s)
  then show ?case by (subst unique_slug.simps) simp
qed

lemma unique_slug_free: "\<not> slug_exists rows s \<Longrightarrow> unique_slug rows b counter s = s"
  by (subst unique_slug.simps) simp

lemma unique_slug_first:
  "slug_exists rows s \<Longrightarrow>
   \<exists>k \<ge> counter. unique_slug rows b counter s = numbered b k
     \<and> (\<forall>j. counter \<le> j \<and> j < k \<longrightarrow> slug_exists rows (numbered b j))"
proof (induct rows b counter s rule: unique_slug.induct)
  case (1 rows b counter s)
  have u: "unique_slug rows b counter s = unique_slug rows b (counter + 1) (numbered b counter)"
    using "1.prems" by (subst unique_slug.simps) simp
  show ?case
  proof (cases "slug_exists rows (numbered b counter)")
    case False
    then have "unique_slug rows b counter s = numbered b counter"
      by (simp add: u unique_slug_free)
    then show ?thesis by auto
  next
    case True
    from "1.hyps" [OF "1.prems" True] obtain k where k: "counter + 1 \<le> k"
      and r: "unique_slug rows b (counter + 1) (numbered b counter) = numbered b k"
      and a: "\<forall>j. counter + 1 \<le> j \<and> j < k \<longrightarrow> slug_exists rows (numbered b j)"
      by blast
    have "\<forall>j. counter \<le> j \<and> j < k \<longrightarrow> slug_exists rows (numbered b j)"
    proof (intro allI impI)
      fix j assume "counter \<le> j \<and> j < k"
      then have "j = counter \<or> (counter + 1 \<le> j \<and> j < k)" by auto
      with True a show "slug_exists rows (numbered b j)" by blast
    qed
    with k r u show ?thesis by (intro exI [of _ k]) simp
  qed
qed

lemma full_clean_Inr:
  assumes "full_clean fw rows a = Inr a'"
  shows "a' = a\<lparr>slug := (if slug a = [] then autoslug fw rows (title a) else slug a)\<rparr>"
    and "validate fw rows a' = None"
  using assms by (auto simp: full_clean_def Let_def split: option.splits if_splits)

lemma process_article_Created:
  assumes "process_article fw st d fu = Inr (Created, st')"
  shows "\<exists>pd. st' = st\<lparr>articles := articles st @
            [\<lparr>title = ad_title d, summary = ad_summary d, source_url = ad_source_url d,
              source_name = ad_source_name d, publication_date = pd,
              content_hash = fingerprint d,
              slug = (if create_slug (articles st) (ad_title d) = []
                      then autoslug fw (articles st) (ad_title d)
                      else create_slug (articles st) (ad_title d))\<rparr>]\<rparr>"
    and "objects_get (articles st) (fingerprint d) = Inr None"
    and "list_pages st \<noteq> []"
proof -
  from assms obtain pd a
    where n: "objects_get (articles st) (fingerprint d) = Inr None"
      and l: "list_pages st \<noteq> []"
      and c: "full_clean fw (articles st)
                \<lparr>title = ad_title d, summary = ad_summary d, source_url = ad_source_url d,
                 source_name = ad_source_name d, publication_date = pd,
                 content_hash = fingerprint d,
                 slug = create_slug (articles st) (ad_title d)\<rparr> = Inr a"
      and s: "st' = st\<lparr>articles := articles st @ [save a]\<rparr>"
    by (auto simp: process_article_def Let_def split: sum.splits option.splits if_splits)
  from full_clean_Inr(1) [OF c]
  have a: "a = \<lparr>title = ad_title d, summary = ad_summary d, source_url = ad_source_url d,
                 source_name = ad_source_name d, publication_date = pd,
                 content_hash = fingerprint d,
                 slug = (if create_slug (articles st) (ad_title d) = []
                         then autoslug fw (articles st) (ad_title d)
                         else create_slug (articles st) (ad_title d))\<rparr>"
    by simp
  then have "content_hash a \<noteq> []" by (simp add: fingerprint_not_Nil)
  then have "save a = a" by (rule save_fixed)
  with s a show "\<exists>pd. st' = st\<lparr>articles := articles st @
            [\<lparr>title = ad_title d, summary = ad_summary d, source_url = ad_source_url d,
              source_name = ad_source_name d, publication_date = pd,
              content_hash = fingerprint d,
              slug = (if create_slug (articles st) (ad_title d) = []
                      then autoslug fw (articles st) (ad_title d)
                      else create_slug (articles st) (ad_title d))\<rparr>]\<rparr>"
    by auto
  from n show "objects_get (articles st) (fingerprint d) = Inr None" .
  from l show "list_pages st \<noteq> []" .
qed

lemma create_slug_Nil: "create_slug [] t = base_slug t"
  by (simp add: create_slug_def Let_def unique_slug_free slug_exists_def)

lemmas slug_eval =
  base_slug_def lower_def lower_char_def sub_special_def slug_class_def is_space_def
  strip_hyphens_def Let_def char_of_def bit_Suc_0_iff

text \<open>The two substitutions of the slug, characterised on their own.\<close>


lemma sub_spaces_no_space: "\<forall>c \<in> set s. \<not> is_space c \<Longrightarrow> sub_spaces s = s"
  by (induct s) simp_all

lemma dropWhile_run:
  assumes "\<forall>c \<in> set ws. is_space c" and "ys = [] \<or> \<not> is_space (hd ys)"
  shows "dropWhile is_space (ws @ ys) = ys"
proof -
  from assms(1) have "dropWhile is_space (ws @ ys) = dropWhile is_space ys"
    by (simp add: dropWhile_append2)
  also from assms(2) have "\<dots> = ys" by (cases ys) auto
  finally show ?thesis .
qed

lemma last_dropWhile_eq: "dropWhile P xs \<noteq> [] \<Longrightarrow> last (dropWhile P xs) = last xs"
  by (induct xs) (auto split: if_splits)

lemma sub_spaces_run:
  assumes ws: "ws \<noteq> []" "\<forall>c \<in> set ws. is_space c"
    and ys: "ys = [] \<or> \<not> is_space (hd ys)"
  shows "xs = [] \<or> \<not> is_space (last xs) \<Longrightarrow>
         sub_spaces (xs @ ws @ ys) = sub_spaces xs @ ''-'' @ sub_spaces ys"
proof (induct xs rule: sub_spaces.induct)
  case 1
  from ws obtain w ws' where w: "ws = w # ws'" by (cases ws) auto
  with ws(2) have "is_space w" and "\<forall>c \<in> set ws'. is_space c" by simp_all
  with dropWhile_run [OF _ ys, of ws'] show ?case by (simp add: w)
next
  case (2 c cs)
  show ?case
  proof (cases "is_space c")
    case True
    with "2.prems" have ne: "cs \<noteq> []" and l: "\<not> is_space (last cs)" by (auto split: if_splits)
    then have m: "last cs \<in> set cs" by simp
    let ?cs = "dropWhile is_space cs"
    from m l have d: "dropWhile is_space (cs @ ws @ ys) = ?cs @ ws @ ys"
      by (rule dropWhile_append1)
    from m l have "?cs \<noteq> []" by (auto simp: dropWhile_eq_Nil_conv)
    with l have "?cs = [] \<or> \<not> is_space (last ?cs)" by (simp add: last_dropWhile_eq)
    from "2.hyps"(1) [OF True this] True d show ?thesis by simp
  next
    case False
    with "2.prems" have "cs = [] \<or> \<not> is_space (last cs)" by (auto split: if_splits)
    from "2.hyps"(2) [OF False this] False show ?thesis by simp
  qed
qed

lemma strip_hyphens_parts:
  "\<exists>p q. s = p @ strip_hyphens s @ q \<and> set p \<subseteq> {CHR ''-''} \<and> set q \<subseteq> {CHR ''-''}"
proof -
  let ?P = "\<lambda>c. c = CHR ''-''"
  define t where "t = dropWhile ?P s"
  define p where "p = takeWhile ?P s"
  define q where "q = rev (takeWhile ?P (rev t))"
  have m: "strip_hyphens s = rev (dropWhile ?P (rev t))"
    by (simp add: strip_hyphens_def t_def)
  have "strip_hyphens s @ q = rev (takeWhile ?P (rev t) @ dropWhile ?P (rev t))"
    unfolding m q_def by (simp only: rev_append)
  also have "\<dots> = rev (rev t)" by (simp only: takeWhile_dropWhile_id)
  also have "\<dots> = t" by (simp only: rev_rev_ident)
  finally have t: "strip_hyphens s @ q = t" .
  have s1: "s = p @ t" unfolding p_def t_def by simp
  have s2: "p @ t = p @ strip_hyphens s @ q" by (simp only: t)
  have "s = p @ strip_hyphens s @ q" by (rule trans [OF s1 s2])
  moreover have "set p \<subseteq> {CHR ''-''}"
    unfolding p_def by (auto dest: set_takeWhileD)
  moreover have "set q \<subseteq> {CHR ''-''}"
    unfolding q_def by (auto dest: set_takeWhileD)
  ultimately show ?thesis by blast
qed

lemma strip_hyphens_ends:
  assumes "strip_hyphens s \<noteq> []"
  shows "hd (strip_hyphens s) \<noteq> CHR ''-''" and "last (strip_hyphens s) \<noteq> CHR ''-''"
proof -
  let ?P = "\<lambda>c. c = CHR ''-''"
  define t where "t = dropWhile ?P s"
  define u where "u = dropWhile ?P (rev t)"
  have m: "strip_hyphens s = rev u"
    by (simp add: strip_hyphens_def t_def u_def)
  from assms have u: "u \<noteq> []" unfolding m by simp
  have t: "t \<noteq> []"
  proof
    assume "t = []"
    then have "u = []" unfolding u_def by simp
    with u show False by simp
  qed
  have "last (strip_hyphens s) = hd u" unfolding m using u by (simp add: last_rev)
  moreover have "\<not> ?P (hd u)" using u unfolding u_def by (rule hd_dropWhile)
  ultimately show "last (strip_hyphens s) \<noteq> CHR ''-''" by simp
  have "hd (strip_hyphens s) = last u" unfolding m using u by (simp add: hd_rev)
  also have "\<dots> = last (rev t)" using u unfolding u_def by (rule last_dropWhile_eq)
  also have "\<dots> = hd t" using t by (simp add: last_rev)
  finally have "hd (strip_hyphens s) = hd t" .
  moreover have "\<not> ?P (hd t)" using t unfolding t_def by (rule hd_dropWhile)
  ultimately show "hd (strip_hyphens s) \<noteq> CHR ''-''" by simp
qed

subsection \<open>Two runs over the same records\<close>
















subsection \<open>The list page during a run\<close>








subsection \<open>Fingerprints\<close>

text \<open>
  Claim C2. The fingerprint that \<^verbatim>\<open>_process_article\<close> computes is the SHA-256 digest, in
  lowercase hexadecimal (64 characters), of the UTF-8 bytes of title, summary and source URL
  concatenated in this order with nothing between them; two records with the same three
  fields have the same fingerprint, whatever their other fields; and an article that is
  created is stored with this fingerprint as its content hash.
\<close>

theorem fingerprint_is_sha256_hex:
  "fingerprint d = hexdigest (encode (ad_title d) @ encode (ad_summary d) @ encode (ad_source_url d))
   \<and> length (fingerprint d) = 64
   \<and> set (fingerprint d) \<subseteq> set ''0123456789abcdef''
   \<and> (ad_title d' = ad_title d \<and> ad_summary d' = ad_summary d \<and> ad_source_url d' = ad_source_url d
        \<longrightarrow> fingerprint d' = fingerprint d)
   \<and> (process_article fw st d fu = Inr (Created, st') \<longrightarrow>
        (\<exists>a. articles st' = articles st @ [a] \<and> content_hash a = fingerprint d))"
proof (intro conjI impI)
  show "fingerprint d
        = hexdigest (encode (ad_title d) @ encode (ad_summary d) @ encode (ad_source_url d))"
    by (simp add: fingerprint_def encode_append)
  show "length (fingerprint d) = 64"
    by (rule length_fingerprint)
  show "set (fingerprint d) \<subseteq> set ''0123456789abcdef''"
    unfolding fingerprint_def Let_def by (rule set_hexdigest)
  show "fingerprint d' = fingerprint d"
    if "ad_title d' = ad_title d \<and> ad_summary d' = ad_summary d \<and> ad_source_url d' = ad_source_url d"
    using that by (simp add: fingerprint_def)
  show "\<exists>a. articles st' = articles st @ [a] \<and> content_hash a = fingerprint d"
    if "process_article fw st d fu = Inr (Created, st')"
    using process_article_Created(1) [OF that] by auto
qed

text \<open>
  The theorem at two records that differ in source name and date only, and at the creation
  of an article.
\<close>

theorem fingerprint_is_sha256_hex_witness:
  "fingerprint \<lparr>ad_title = ''t'', ad_summary = ''s'', ad_source_url = ''https://example.com/t'',
                ad_source_name = ''Reddit Programming'', ad_publication_date = None\<rparr>
   = fingerprint \<lparr>ad_title = ''t'', ad_summary = ''s'', ad_source_url = ''https://example.com/t'',
                  ad_source_name = ''Hacker News'', ad_publication_date = Some 3\<rparr>
   \<and> (\<exists>a. articles (snd (projr (process_article 
              \<lparr>autoslug = (\<lambda>rows t. t), validate = (\<lambda>rows a. None), validate_list_page = (\<lambda>st root. None)\<rparr>
             
              \<lparr>default_sites = [2], list_pages = [2], articles = []\<rparr>
              \<lparr>ad_title = ''t'', ad_summary = ''s'', ad_source_url = ''https://example.com/t'',
               ad_source_name = ''Hacker News'', ad_publication_date = Some 3\<rparr> False))) = [] @ [a]
          \<and> content_hash a = fingerprint \<lparr>ad_title = ''t'', ad_summary = ''s'',
               ad_source_url = ''https://example.com/t'', ad_source_name = ''Hacker News'',
               ad_publication_date = Some 3\<rparr>)"
proof -
  let ?d = "\<lparr>ad_title = ''t'', ad_summary = ''s'', ad_source_url = ''https://example.com/t'',
             ad_source_name = ''Hacker News'', ad_publication_date = Some 3\<rparr>"
  let ?d' = "\<lparr>ad_title = ''t'', ad_summary = ''s'', ad_source_url = ''https://example.com/t'',
              ad_source_name = ''Reddit Programming'', ad_publication_date = None\<rparr>"
  let ?st = "\<lparr>default_sites = [2], list_pages = [2], articles = []\<rparr>"
  have t: "ad_title ?d' = ad_title ?d \<and> ad_summary ?d' = ad_summary ?d
           \<and> ad_source_url ?d' = ad_source_url ?d"
    by simp
  have c: "process_article 
              \<lparr>autoslug = (\<lambda>rows t. t), validate = (\<lambda>rows a. None), validate_list_page = (\<lambda>st root. None)\<rparr>
              ?st ?d False
           = Inr (Created, ?st\<lparr>articles := [\<lparr>title = ''t'', summary = ''s'', source_url = ''https://example.com/t'',
               source_name = ''Hacker News'', publication_date = 3, content_hash = fingerprint ?d,
               slug = ''t''\<rparr>]\<rparr>)"
    by (simp add: process_article_def objects_get_def full_clean_def save_fixed
          fingerprint_not_Nil create_slug_Nil slug_eval)
  note w1 = fingerprint_is_sha256_hex [where d = ?d and d' = ?d', THEN conjunct2, THEN conjunct2,
              THEN conjunct2, THEN conjunct1, rule_format, OF t]
  from fingerprint_is_sha256_hex [where d = ?d and fw = "
              \<lparr>autoslug = (\<lambda>rows t. t), validate = (\<lambda>rows a. None), validate_list_page = (\<lambda>st root. None)\<rparr>
             " and st = ?st and fu = False,
         THEN conjunct2, THEN conjunct2, THEN conjunct2, THEN conjunct2, rule_format, OF c]
  have w2: "\<exists>a. articles (snd (projr (process_article 
              \<lparr>autoslug = (\<lambda>rows t. t), validate = (\<lambda>rows a. None), validate_list_page = (\<lambda>st root. None)\<rparr>
              ?st ?d False))) = [] @ [a]
          \<and> content_hash a = fingerprint ?d"
    unfolding c by auto
  show ?thesis by (rule conjI [OF w1 w2])
qed

text \<open>
  Claim C3, as stated, fails: the three fields are concatenated without a separator, so
  swapping the title \<^verbatim>\<open>a\<close> and the summary \<^verbatim>\<open>aa\<close> hashes the same text.
\<close>

theorem fingerprint_swap_counterexample:
  "fingerprint \<lparr>ad_title = ''aa'', ad_summary = ''a'', ad_source_url = ''https://example.com/x'',
                ad_source_name = ''Hacker News'', ad_publication_date = Some 0\<rparr>
   = fingerprint \<lparr>ad_title = ''a'', ad_summary = ''aa'', ad_source_url = ''https://example.com/x'',
                  ad_source_name = ''Hacker News'', ad_publication_date = Some 0\<rparr>"
  by (simp add: fingerprint_def)

text \<open>
  Claim C3, amended. The fingerprint is a function of the record; with title and summary
  swapped it is the digest of summary, title and source URL in this order, and it equals the
  original fingerprint whenever title followed by summary reads the same as summary followed
  by title.
\<close>

theorem fingerprint_swap:
  "fingerprint (d\<lparr>ad_title := ad_summary d, ad_summary := ad_title d\<rparr>)
     = hexdigest (encode (ad_summary d @ ad_title d @ ad_source_url d))
   \<and> (ad_title d @ ad_summary d = ad_summary d @ ad_title d
        \<longrightarrow> fingerprint (d\<lparr>ad_title := ad_summary d, ad_summary := ad_title d\<rparr>) = fingerprint d)"
proof (intro conjI impI)
  show "fingerprint (d\<lparr>ad_title := ad_summary d, ad_summary := ad_title d\<rparr>)
        = hexdigest (encode (ad_summary d @ ad_title d @ ad_source_url d))"
    by (simp add: fingerprint_def)
next
  assume c: "ad_title d @ ad_summary d = ad_summary d @ ad_title d"
  have "ad_summary d @ ad_title d @ ad_source_url d = (ad_summary d @ ad_title d) @ ad_source_url d"
    by simp
  also have "\<dots> = (ad_title d @ ad_summary d) @ ad_source_url d"
    by (simp only: c)
  also have "\<dots> = ad_title d @ ad_summary d @ ad_source_url d"
    by simp
  finally have e: "ad_summary d @ ad_title d @ ad_source_url d
                   = ad_title d @ ad_summary d @ ad_source_url d" .
  have l: "fingerprint (d\<lparr>ad_title := ad_summary d, ad_summary := ad_title d\<rparr>)
           = hexdigest (encode (ad_summary d @ ad_title d @ ad_source_url d))"
    by (simp add: fingerprint_def)
  have r: "fingerprint d = hexdigest (encode (ad_title d @ ad_summary d @ ad_source_url d))"
    by (simp add: fingerprint_def)
  show "fingerprint (d\<lparr>ad_title := ad_summary d, ad_summary := ad_title d\<rparr>) = fingerprint d"
    by (simp only: l r e)
qed

text \<open>The amended statement at the title \<^verbatim>\<open>ab\<close> and the summary \<^verbatim>\<open>abab\<close>.\<close>

theorem fingerprint_swap_witness:
  "''ab'' @ ''abab'' = ''abab'' @ ''ab''
   \<and> fingerprint \<lparr>ad_title = ''abab'', ad_summary = ''ab'', ad_source_url = ''u'',
                  ad_source_name = ''n'', ad_publication_date = None\<rparr>
     = fingerprint \<lparr>ad_title = ''ab'', ad_summary = ''abab'', ad_source_url = ''u'',
                    ad_source_name = ''n'', ad_publication_date = None\<rparr>"
  using fingerprint_swap
    [of "\<lparr>ad_title = ''ab'', ad_summary = ''abab'', ad_source_url = ''u'',
          ad_source_name = ''n'', ad_publication_date = None\<rparr>", THEN conjunct2]
  by simp


text \<open>
  Claim C7, as stated, fails for an empty \<^verbatim>\<open>url\<close> field: the forum extractor keeps the
  empty string as the source URL and does not substitute the permalink.
\<close>

theorem reddit_empty_url_counterexample:
  "map ad_source_url
     (scrape_reddit_programming 0
        (Some [\<lparr>p_title = Some ''Parser notes'', p_url = Some [],
                p_permalink = Some ''/r/programming/comments/1/parser_notes/'',
                p_selftext = Some ''body''\<rparr>]) 5) = [[]]
   \<and> map ad_source_url
     (scrape_reddit_programming 0
        (Some [\<lparr>p_title = Some ''Parser notes'', p_url = Some [],
                p_permalink = Some ''/r/programming/comments/1/parser_notes/'',
                p_selftext = Some ''body''\<rparr>]) 5)
     \<noteq> [''https://reddit.com/r/programming/comments/1/parser_notes/'']"
  by (simp add: scrape_reddit_programming_def py_take_def List.map_filter_simps reddit_entry_def
        reddit_article_def get_or_empty_def strip_def is_space_def startswith_def Let_def)

text \<open>
  Claim C7, amended. For every record that the forum extractor returns there is a post among
  the first \<open>n\<close> children that produced it; if the post's \<^verbatim>\<open>url\<close> starts with
  \<^verbatim>\<open>/r/\<close> or contains \<^verbatim>\<open>reddit.com\<close>, the source URL is
  \<^verbatim>\<open>https://reddit.com\<close> followed by the permalink, and otherwise (also when the field
  is empty or absent) it is the \<^verbatim>\<open>url\<close> field unchanged.
\<close>

theorem reddit_source_url:
  "a \<in> set (scrape_reddit_programming today (Some children) n) \<Longrightarrow>
   \<exists>p \<in> set (py_take n children).
     reddit_entry today p = Some a \<and>
     (let u = get_or_empty (p_url p)
      in if startswith u ''/r/'' \<or> contains u ''reddit.com''
         then \<exists>pl. p_permalink p = Some pl \<and> ad_source_url a = ''https://reddit.com'' @ pl
         else ad_source_url a = u)"
proof -
  assume "a \<in> set (scrape_reddit_programming today (Some children) n)"
  then obtain p where p: "p \<in> set (py_take n children)" and e: "reddit_entry today p = Some a"
    by (auto simp: scrape_reddit_programming_def set_map_filter_iff)
  from reddit_entry_fields(3,4) [OF e] have
    "let u = get_or_empty (p_url p)
      in if startswith u ''/r/'' \<or> contains u ''reddit.com''
         then \<exists>pl. p_permalink p = Some pl \<and> ad_source_url a = ''https://reddit.com'' @ pl
         else ad_source_url a = u"
    unfolding Let_def by auto
  with p e show ?thesis by blast
qed

text \<open>
  The amended statement at a post whose \<^verbatim>\<open>url\<close> is an internal path.
\<close>

theorem reddit_source_url_witness:
  "\<lparr>ad_title = ''T'', ad_summary = ''body'',
     ad_source_url = ''https://reddit.com/r/programming/comments/1/t/'',
     ad_source_name = ''Reddit Programming'', ad_publication_date = Some 0\<rparr>
   \<in> set (scrape_reddit_programming 0
        (Some [\<lparr>p_title = Some ''T'', p_url = Some ''/r/programming/comments/1/t/'',
                p_permalink = Some ''/r/programming/comments/1/t/'',
                p_selftext = Some ''body''\<rparr>]) 5)
   \<and> (\<exists>p \<in> set (py_take 5 [\<lparr>p_title = Some ''T'', p_url = Some ''/r/programming/comments/1/t/'',
                p_permalink = Some ''/r/programming/comments/1/t/'',
                p_selftext = Some ''body''\<rparr>]).
        \<exists>pl. p_permalink p = Some pl \<and>
          ''https://reddit.com/r/programming/comments/1/t/'' = ''https://reddit.com'' @ pl)"
proof -
  have m: "\<lparr>ad_title = ''T'', ad_summary = ''body'',
     ad_source_url = ''https://reddit.com/r/programming/comments/1/t/'',
     ad_source_name = ''Reddit Programming'', ad_publication_date = Some 0\<rparr>
   \<in> set (scrape_reddit_programming 0
        (Some [\<lparr>p_title = Some ''T'', p_url = Some ''/r/programming/comments/1/t/'',
                p_permalink = Some ''/r/programming/comments/1/t/'',
                p_selftext = Some ''body''\<rparr>]) 5)"
    by (simp add: scrape_reddit_programming_def py_take_def List.map_filter_simps reddit_entry_def
          reddit_article_def get_or_empty_def strip_def is_space_def startswith_def Let_def)
  from reddit_source_url [OF m] m show ?thesis
    by (simp add: py_take_def get_or_empty_def startswith_def)
qed





text \<open>
  Claim C10. \<^verbatim>\<open>NewsArticle.save\<close> sets the content hash to the SHA-256 hex digest of
  title, summary and source URL only when it is empty, and leaves a non-empty one as it is;
  after a save it is never empty, so a later save after any change of title, summary,
  publication date or source name keeps it, and a forced update by \<^verbatim>\<open>_process_article\<close>
  leaves the content hash of every stored row unchanged.
\<close>

theorem save_content_hash_fixed:
  "(content_hash a = [] \<longrightarrow>
      content_hash (save a) = hexdigest (encode (title a @ summary a @ source_url a)))
   \<and> (content_hash a \<noteq> [] \<longrightarrow> content_hash (save a) = content_hash a)
   \<and> content_hash (save a) \<noteq> []
   \<and> content_hash (save ((save a)\<lparr>title := t, summary := s, publication_date := pd,
                                    source_name := sn\<rparr>)) = content_hash (save a)
   \<and> (process_article fw st d True = Inr (Updated, st') \<longrightarrow>
        map content_hash (articles st') = map content_hash (articles st))"
proof (intro conjI impI)
  show "content_hash (save a) = hexdigest (encode (title a @ summary a @ source_url a))"
    if "content_hash a = []"
    using that by (simp add: save_def)
  show "content_hash (save a) = content_hash a" if "content_hash a \<noteq> []"
    using that by (simp add: save_def)
  show ne: "content_hash (save a) \<noteq> []"
    by (simp add: save_def hexdigest_not_Nil)
  show "content_hash (save ((save a)\<lparr>title := t, summary := s, publication_date := pd,
                                    source_name := sn\<rparr>)) = content_hash (save a)"
    using ne by (simp add: save_fixed)
next
  assume u: "process_article fw st d True = Inr (Updated, st')"
  then obtain ex a where g: "objects_get (articles st) (fingerprint d) = Inr (Some ex)"
    and c: "\<exists>pd. full_clean fw (articles st)
              (ex\<lparr>title := ad_title d, summary := ad_summary d,
                   publication_date := pd, source_name := ad_source_name d\<rparr>) = Inr a"
    and st': "st' = st\<lparr>articles :=
                map (\<lambda>r. if content_hash r = fingerprint d then save a else r) (articles st)\<rparr>"
    by (auto simp: process_article_def Let_def
             split: sum.splits option.splits if_splits)
  from objects_get_Some(1) [OF g] have h: "content_hash ex = fingerprint d" .
  from c obtain pd where "full_clean fw (articles st)
              (ex\<lparr>title := ad_title d, summary := ad_summary d,
                   publication_date := pd, source_name := ad_source_name d\<rparr>) = Inr a"
    by blast
  from full_clean_Inr(1) [OF this] h have "content_hash a = fingerprint d"
    by simp
  then have "content_hash (save a) = fingerprint d"
    using fingerprint_not_Nil [of d] by (simp add: save_fixed)
  then show "map content_hash (articles st') = map content_hash (articles st)"
    unfolding st' by (simp add: map_idI)
qed

text \<open>
  The theorem at a row without hash, at a row with a hash, and at a forced update.
\<close>

theorem save_content_hash_fixed_witness:
  "content_hash (save \<lparr>title = ''t'', summary = ''s'', source_url = ''https://example.com/t'', source_name = ''n'',
                       publication_date = 0, content_hash = [], slug = ''t''\<rparr>)
     = hexdigest (encode ''tshttps://example.com/t'')
   \<and> content_hash (save \<lparr>title = ''t'', summary = ''s'', source_url = ''https://example.com/t'', source_name = ''n'',
                       publication_date = 0, content_hash = ''0f'', slug = ''t''\<rparr>) = ''0f''
   \<and> process_article
        \<lparr>autoslug = (\<lambda>rows t. t), validate = (\<lambda>rows a. None), validate_list_page = (\<lambda>st root. None)\<rparr>
        \<lparr>default_sites = [1], list_pages = [1],
         articles = [\<lparr>title = ''t'', summary = ''s'', source_url = ''https://example.com/t'', source_name = ''n'',
                      publication_date = 0,
                      content_hash = fingerprint \<lparr>ad_title = ''t'', ad_summary = ''s'',
                        ad_source_url = ''https://example.com/t'', ad_source_name = ''m'', ad_publication_date = Some 7\<rparr>,
                      slug = ''t''\<rparr>]\<rparr>
        \<lparr>ad_title = ''t'', ad_summary = ''s'', ad_source_url = ''https://example.com/t'', ad_source_name = ''m'',
         ad_publication_date = Some 7\<rparr> True
      = Inr (Updated,
        \<lparr>default_sites = [1], list_pages = [1],
         articles = [\<lparr>title = ''t'', summary = ''s'', source_url = ''https://example.com/t'', source_name = ''m'',
                      publication_date = 7,
                      content_hash = fingerprint \<lparr>ad_title = ''t'', ad_summary = ''s'',
                        ad_source_url = ''https://example.com/t'', ad_source_name = ''m'', ad_publication_date = Some 7\<rparr>,
                      slug = ''t''\<rparr>]\<rparr>)"
proof -
  have u: "process_article
        \<lparr>autoslug = (\<lambda>rows t. t), validate = (\<lambda>rows a. None), validate_list_page = (\<lambda>st root. None)\<rparr>
        \<lparr>default_sites = [1], list_pages = [1],
         articles = [\<lparr>title = ''t'', summary = ''s'', source_url = ''https://example.com/t'', source_name = ''n'',
                      publication_date = 0,
                      content_hash = fingerprint \<lparr>ad_title = ''t'', ad_summary = ''s'',
                        ad_source_url = ''https://example.com/t'', ad_source_name = ''m'', ad_publication_date = Some 7\<rparr>,
                      slug = ''t''\<rparr>]\<rparr>
        \<lparr>ad_title = ''t'', ad_summary = ''s'', ad_source_url = ''https://example.com/t'', ad_source_name = ''m'',
         ad_publication_date = Some 7\<rparr> True
      = Inr (Updated,
        \<lparr>default_sites = [1], list_pages = [1],
         articles = [\<lparr>title = ''t'', summary = ''s'', source_url = ''https://example.com/t'', source_name = ''m'',
                      publication_date = 7,
                      content_hash = fingerprint \<lparr>ad_title = ''t'', ad_summary = ''s'',
                        ad_source_url = ''https://example.com/t'', ad_source_name = ''m'', ad_publication_date = Some 7\<rparr>,
                      slug = ''t''\<rparr>]\<rparr>)"
    by (simp add: process_article_def objects_get_def full_clean_def Let_def save_fixed
          fingerprint_not_Nil)
  from save_content_hash_fixed
         [of "\<lparr>title = ''t'', summary = ''s'', source_url = ''https://example.com/t'', source_name = ''n'',
               publication_date = 0, content_hash = [], slug = ''t''\<rparr>"]
       save_content_hash_fixed
         [of "\<lparr>title = ''t'', summary = ''s'', source_url = ''https://example.com/t'', source_name = ''n'',
               publication_date = 0, content_hash = ''0f'', slug = ''t''\<rparr>"]
       save_content_hash_fixed [THEN conjunct2, THEN conjunct2, THEN conjunct2, THEN conjunct2,
         rule_format, OF u]
       u
  show ?thesis by simp
qed


text \<open>
  Claim C4, as stated, fails: \<^verbatim>\<open>handle\<close> keeps three counters and no count of failed
  records. In this run the only record is rejected by the framework's validation (its source
  URL is empty); the failure is printed and logged with the title, and the final tally reads
  0 created, 0 updated, 0 skipped for one processed record.
\<close>

theorem failure_not_counted_counterexample:
  "handle \<lparr>env_framework = \<lparr>autoslug = (\<lambda>rows t. t),
             validate = (\<lambda>rows a. if source_url a = [] then Some ''This field cannot be blank.''
                                   else None),
             validate_list_page = (\<lambda>st root. None)\<rparr>,
           env_today = 0, env_hn_page = None,
           env_reddit_feed = Some [\<lparr>p_title = Some ''Parser notes'', p_url = Some [],
                                    p_permalink = Some ''/r/programming/comments/1/parser_notes/'',
                                    p_selftext = Some ''body''\<rparr>]\<rparr>
          \<lparr>opt_max_articles = 5, opt_source = Reddit, opt_dry_run = False,
           opt_force_update = False, opt_test = False\<rparr>
          \<lparr>default_sites = [2], list_pages = [2], articles = []\<rparr>
   = Inr \<lparr>run_db = \<lparr>default_sites = [2], list_pages = [2], articles = []\<rparr>,
          created_count = 0, updated_count = 0, skipped_count = 0,
          stdout = [MsgFailed ''Parser notes'' (ValidationError ''This field cannot be blank.''),
                    MsgComplete 0 0 0],
          logged = [(''Parser notes'', ValidationError ''This field cannot be blank.'')]\<rparr>"
  by (simp add: handle_def all_articles_def ensure_news_list_page_def start_run_def
        process_articles_def handle_article_def process_article_def objects_get_def full_clean_def
        scrape_reddit_programming_def py_take_def List.map_filter_simps reddit_entry_def
        reddit_article_def get_or_empty_def strip_def startswith_def create_slug_Nil slug_eval)

text \<open>
  Claim C4, amended. Take a run that is neither a test run nor a dry run and that returns,
  and the results of \<^verbatim>\<open>_process_article\<close> for its articles in order, each on the
  database that the articles before it left. There is one result for every article, so no
  exception stops the loop. The three counters are the numbers of results
  \<^verbatim>\<open>created\<close>, \<^verbatim>\<open>updated\<close> and \<^verbatim>\<open>skipped\<close>; an exception adds to none of
  them. The error log holds, in order, exactly one entry for every article whose processing
  raised, with the title of that article and the exception. Hence the three counters and the
  number of logged failures add up to the number of articles; failures themselves are not
  counted. The lines printed are, in order, one line for every article, which says
  \<^verbatim>\<open>Created\<close>, \<^verbatim>\<open>Updated\<close>, \<^verbatim>\<open>Skipped\<close> or \<^verbatim>\<open>Failed\<close> with the first 60
  characters of its title, the last of these with the exception, and then the tally of the
  three counters.
\<close>

theorem failures_caught_not_counted:
  assumes "handle ev opts st = Inr r" and "\<not> opt_test opts" and "\<not> opt_dry_run opts"
  shows "\<exists>st1. ensure_news_list_page (env_framework ev) st = Inr st1 \<and>
     (let ds = all_articles ev opts;
          rs = run_results (env_framework ev) (opt_force_update opts) st1 ds
      in length rs = length ds
         \<and> created_count r = count_list rs (Inr Created)
         \<and> updated_count r = count_list rs (Inr Updated)
         \<and> skipped_count r = count_list rs (Inr Skipped)
         \<and> logged r = List.map_filter
               (\<lambda>(d, x). case x of Inl e \<Rightarrow> Some (ad_title d, e) | Inr oc \<Rightarrow> None) (zip ds rs)
         \<and> created_count r + updated_count r + skipped_count r + length (logged r) = length ds
         \<and> (ds \<noteq> [] \<longrightarrow>
              stdout r = map
                  (\<lambda>(d, x). case x of
                       Inl e \<Rightarrow> MsgFailed (take 60 (ad_title d)) e
                     | Inr Created \<Rightarrow> MsgCreated (take 60 (ad_title d))
                     | Inr Updated \<Rightarrow> MsgUpdated (take 60 (ad_title d))
                     | Inr Skipped \<Rightarrow> MsgSkipped (take 60 (ad_title d)))
                  (zip ds rs)
                @ [MsgComplete (created_count r) (updated_count r) (skipped_count r)]))"
proof -
  let ?fw = "env_framework ev"
  let ?ds = "all_articles ev opts"
  from assms obtain st1 where e: "ensure_news_list_page ?fw st = Inr st1"
    by (auto simp: handle_def split: sum.splits)
  let ?rs = "run_results ?fw (opt_force_update opts) st1 ?ds"
  have len: "length ?rs = length ?ds" by (rule run_results_length)
  note total = trace_total [OF len]
  have "length ?rs = length ?ds
         \<and> created_count r = count_list ?rs (Inr Created)
         \<and> updated_count r = count_list ?rs (Inr Updated)
         \<and> skipped_count r = count_list ?rs (Inr Skipped)
         \<and> logged r = List.map_filter
               (\<lambda>(d, x). case x of Inl e \<Rightarrow> Some (ad_title d, e) | Inr oc \<Rightarrow> None) (zip ?ds ?rs)
         \<and> created_count r + updated_count r + skipped_count r + length (logged r) = length ?ds
         \<and> (?ds \<noteq> [] \<longrightarrow>
              stdout r = map
                  (\<lambda>(d, x). case x of
                       Inl e \<Rightarrow> MsgFailed (take 60 (ad_title d)) e
                     | Inr Created \<Rightarrow> MsgCreated (take 60 (ad_title d))
                     | Inr Updated \<Rightarrow> MsgUpdated (take 60 (ad_title d))
                     | Inr Skipped \<Rightarrow> MsgSkipped (take 60 (ad_title d)))
                  (zip ?ds ?rs)
                @ [MsgComplete (created_count r) (updated_count r) (skipped_count r)])"
  proof (cases "?ds = []")
    case True
    with assms e show ?thesis
      by (auto simp: handle_def start_run_def List.map_filter_simps)
  next
    case False
    define r1 where "r1 = foldl (handle_article ?fw False (opt_force_update opts)) (start_run st1) ?ds"
    from assms e False have r: "r = r1\<lparr>stdout := stdout r1 @
        [MsgComplete (created_count r1) (updated_count r1) (skipped_count r1)]\<rparr>"
      by (simp add: handle_def r1_def process_articles_def Let_def)
    from loop_trace [of ?fw "opt_force_update opts" "start_run st1" ?ds]
    have t: "created_count r1 = count_list ?rs (Inr Created)"
      "updated_count r1 = count_list ?rs (Inr Updated)"
      "skipped_count r1 = count_list ?rs (Inr Skipped)"
      "logged r1 = List.map_filter
               (\<lambda>(d, x). case x of Inl e \<Rightarrow> Some (ad_title d, e) | Inr oc \<Rightarrow> None) (zip ?ds ?rs)"
      unfolding r1_def by (simp_all add: start_run_def)
    from loop_stdout [of ?fw "opt_force_update opts" "start_run st1" ?ds]
    have o: "stdout r1 = map
                  (\<lambda>(d, x). case x of
                       Inl e \<Rightarrow> MsgFailed (take 60 (ad_title d)) e
                     | Inr Created \<Rightarrow> MsgCreated (take 60 (ad_title d))
                     | Inr Updated \<Rightarrow> MsgUpdated (take 60 (ad_title d))
                     | Inr Skipped \<Rightarrow> MsgSkipped (take 60 (ad_title d)))
                  (zip ?ds ?rs)"
      unfolding r1_def by (simp add: start_run_def)
    from total t len show ?thesis
      by (simp add: r o)
  qed
  with e show ?thesis unfolding Let_def by blast
qed

text \<open>
  The amended statement at a run over two posts: the first is rejected by the validation and
  logged with its title, the second is created.
\<close>

theorem failures_caught_not_counted_witness:
  "(case handle \<lparr>env_framework = \<lparr>autoslug = (\<lambda>rows t. t),
                    validate = (\<lambda>rows a. if source_url a = []
                                          then Some ''This field cannot be blank.'' else None),
                    validate_list_page = (\<lambda>st root. None)\<rparr>,
                  env_today = 0, env_hn_page = None,
                  env_reddit_feed = Some
                    [\<lparr>p_title = Some ''Parser notes'', p_url = Some [],
                      p_permalink = Some ''/r/programming/comments/1/parser_notes/'',
                      p_selftext = Some ''body''\<rparr>,
                     \<lparr>p_title = Some ''Build tools'', p_url = Some ''https://example.com/b'',
                      p_permalink = Some ''/r/programming/comments/2/build_tools/'',
                      p_selftext = Some ''text''\<rparr>]\<rparr>
                 \<lparr>opt_max_articles = 5, opt_source = Reddit, opt_dry_run = False,
                  opt_force_update = False, opt_test = False\<rparr>
                 \<lparr>default_sites = [2], list_pages = [2], articles = []\<rparr> of
      Inl e \<Rightarrow> False
    | Inr r \<Rightarrow> created_count r = 1 \<and> updated_count r = 0 \<and> skipped_count r = 0
               \<and> logged r = [(''Parser notes'', ValidationError ''This field cannot be blank.'')]
               \<and> stdout r = [MsgFailed ''Parser notes''
                                (ValidationError ''This field cannot be blank.''),
                             MsgCreated ''Build tools'', MsgComplete 1 0 0])"
proof -
  let ?fw = "\<lparr>autoslug = (\<lambda>rows t. t),
               validate = (\<lambda>rows a. if source_url a = []
                                     then Some ''This field cannot be blank.'' else None),
               validate_list_page = (\<lambda>st root. None)\<rparr>"
  let ?ev = "\<lparr>env_framework = ?fw, env_today = 0, env_hn_page = None,
               env_reddit_feed = Some
                 [\<lparr>p_title = Some ''Parser notes'', p_url = Some [],
                   p_permalink = Some ''/r/programming/comments/1/parser_notes/'',
                   p_selftext = Some ''body''\<rparr>,
                  \<lparr>p_title = Some ''Build tools'', p_url = Some ''https://example.com/b'',
                   p_permalink = Some ''/r/programming/comments/2/build_tools/'',
                   p_selftext = Some ''text''\<rparr>]\<rparr>"
  let ?opts = "\<lparr>opt_max_articles = 5, opt_source = Reddit, opt_dry_run = False,
                 opt_force_update = False, opt_test = False\<rparr>"
  let ?st = "\<lparr>default_sites = [2], list_pages = [2], articles = []\<rparr>"
  let ?d1 = "\<lparr>ad_title = ''Parser notes'', ad_summary = ''body'', ad_source_url = [],
               ad_source_name = ''Reddit Programming'', ad_publication_date = Some 0\<rparr>"
  let ?d2 = "\<lparr>ad_title = ''Build tools'', ad_summary = ''text'',
               ad_source_url = ''https://example.com/b'',
               ad_source_name = ''Reddit Programming'', ad_publication_date = Some 0\<rparr>"
  have a: "all_articles ?ev ?opts = [?d1, ?d2]"
    by (simp add: all_articles_def scrape_reddit_programming_def py_take_def
          List.map_filter_simps reddit_entry_def reddit_article_def get_or_empty_def strip_def
          is_space_def startswith_def Let_def)
  have e: "ensure_news_list_page ?fw ?st = Inr ?st"
    by (simp add: ensure_news_list_page_def)
  have rs: "run_results (env_framework ?ev) (opt_force_update ?opts) ?st [?d1, ?d2]
            = [Inl (ValidationError ''This field cannot be blank.''), Inr Created]"
    by (simp add: process_article_def objects_get_def full_clean_def create_slug_Nil slug_eval)
  have t: "\<not> opt_test ?opts" and n: "\<not> opt_dry_run ?opts" by simp_all
  have "\<exists>r. handle ?ev ?opts ?st = Inr r"
    by (simp add: handle_def e a Let_def)
  then obtain r where h: "handle ?ev ?opts ?st = Inr r" by blast
  from failures_caught_not_counted [OF h t n] obtain st1
    where e1: "ensure_news_list_page (env_framework ?ev) ?st = Inr st1"
      and f: "let ds = all_articles ?ev ?opts;
                  rs = run_results (env_framework ?ev) (opt_force_update ?opts) st1 ds
              in length rs = length ds
                 \<and> created_count r = count_list rs (Inr Created)
                 \<and> updated_count r = count_list rs (Inr Updated)
                 \<and> skipped_count r = count_list rs (Inr Skipped)
                 \<and> logged r = List.map_filter
                       (\<lambda>(d, x). case x of Inl e \<Rightarrow> Some (ad_title d, e) | Inr oc \<Rightarrow> None)
                       (zip ds rs)
                 \<and> created_count r + updated_count r + skipped_count r + length (logged r)
                     = length ds
                 \<and> (ds \<noteq> [] \<longrightarrow>
                      stdout r = map
                          (\<lambda>(d, x). case x of
                               Inl e \<Rightarrow> MsgFailed (take 60 (ad_title d)) e
                             | Inr Created \<Rightarrow> MsgCreated (take 60 (ad_title d))
                             | Inr Updated \<Rightarrow> MsgUpdated (take 60 (ad_title d))
                             | Inr Skipped \<Rightarrow> MsgSkipped (take 60 (ad_title d)))
                          (zip ds rs)
                        @ [MsgComplete (created_count r) (updated_count r) (skipped_count r)])"
    by blast
  from e e1 have s: "st1 = ?st" by simp
  from f have "created_count r = 1 \<and> updated_count r = 0 \<and> skipped_count r = 0
               \<and> logged r = [(''Parser notes'', ValidationError ''This field cannot be blank.'')]
               \<and> stdout r = [MsgFailed ''Parser notes''
                                (ValidationError ''This field cannot be blank.''),
                             MsgCreated ''Build tools'', MsgComplete 1 0 0]"
    unfolding s a Let_def rs by (simp add: List.map_filter_simps)
  then show ?thesis unfolding h by simp
qed


text \<open>
  Claim C6 against the code. The three canned test articles have no
  \<^verbatim>\<open>'publication_date'\<close> key, which the create path of \<^verbatim>\<open>_process_article\<close> reads:
  on a database without these articles a test run completes, but every record fails with a
  \<^verbatim>\<open>KeyError\<close>, nothing is stored and the run reports 0 created test articles.
\<close>

theorem test_mode_creates_nothing:
  "handle \<lparr>env_framework = \<lparr>autoslug = (\<lambda>rows t. t), validate = (\<lambda>rows a. None), validate_list_page = (\<lambda>st root. None)\<rparr>, env_today = 0, env_hn_page = None, env_reddit_feed = None\<rparr>
          \<lparr>opt_max_articles = 5, opt_source = AllSources, opt_dry_run = False,
           opt_force_update = False, opt_test = True\<rparr>
          \<lparr>default_sites = [1], list_pages = [], articles = []\<rparr>
   = Inr \<lparr>run_db = \<lparr>default_sites = [1], list_pages = [1], articles = []\<rparr>,
          created_count = 0, updated_count = 0, skipped_count = 0,
          stdout = [MsgFailedTest (KeyError ''publication_date''),
                    MsgFailedTest (KeyError ''publication_date''),
                    MsgFailedTest (KeyError ''publication_date''),
                    MsgTestComplete 0],
          logged = []\<rparr>"
  by (simp add: handle_def create_test_articles_def ensure_news_list_page_def start_run_def
        test_articles_def test_article_def process_article_def objects_get_def Let_def)





text \<open>
  Claim C9, as stated, fails for a title without any letter a-z or digit, such as the single
  letter e with acute accent: \<^verbatim>\<open>_create_slug\<close> derives the empty slug, the article is
  stored with the slug that the framework makes from the title (here the title itself), and
  for a second article with this title \<^verbatim>\<open>_create_slug\<close> derives the empty slug again,
  since no stored article has an empty slug.
\<close>

theorem create_slug_empty_counterexample:
  "process_article
     \<lparr>autoslug = (\<lambda>rows t. t), validate = (\<lambda>rows a. None),
      validate_list_page = (\<lambda>st root. None)\<rparr>
     \<lparr>default_sites = [2], list_pages = [2], articles = []\<rparr>
     \<lparr>ad_title = [CHR 0xE9], ad_summary = ''s'', ad_source_url = ''https://example.com/e'',
      ad_source_name = ''Hacker News'', ad_publication_date = Some 0\<rparr> False
   = Inr (Created,
       \<lparr>default_sites = [2], list_pages = [2],
        articles = [\<lparr>title = [CHR 0xE9], summary = ''s'',
                     source_url = ''https://example.com/e'', source_name = ''Hacker News'',
                     publication_date = 0,
                     content_hash = fingerprint
                       \<lparr>ad_title = [CHR 0xE9], ad_summary = ''s'',
                        ad_source_url = ''https://example.com/e'',
                        ad_source_name = ''Hacker News'', ad_publication_date = Some 0\<rparr>,
                     slug = [CHR 0xE9]\<rparr>]\<rparr>)
   \<and> create_slug [] [CHR 0xE9] = []
   \<and> create_slug
        [\<lparr>title = [CHR 0xE9], summary = ''s'',
          source_url = ''https://example.com/e'', source_name = ''Hacker News'',
          publication_date = 0,
          content_hash = fingerprint
            \<lparr>ad_title = [CHR 0xE9], ad_summary = ''s'',
             ad_source_url = ''https://example.com/e'',
             ad_source_name = ''Hacker News'', ad_publication_date = Some 0\<rparr>,
          slug = [CHR 0xE9]\<rparr>] [CHR 0xE9] = []"
proof -
  have b: "base_slug [CHR 0xE9] = []"
    by (simp add: slug_eval)
  have 1: "create_slug [] [CHR 0xE9] = []"
    by (simp add: create_slug_Nil b)
  have 2: "create_slug
        [\<lparr>title = [CHR 0xE9], summary = ''s'',
          source_url = ''https://example.com/e'', source_name = ''Hacker News'',
          publication_date = 0,
          content_hash = fingerprint
            \<lparr>ad_title = [CHR 0xE9], ad_summary = ''s'',
             ad_source_url = ''https://example.com/e'',
             ad_source_name = ''Hacker News'', ad_publication_date = Some 0\<rparr>,
          slug = [CHR 0xE9]\<rparr>] [CHR 0xE9] = []"
    by (simp add: create_slug_def b unique_slug_free slug_exists_def)
  show ?thesis
    by (simp add: 2) (simp add: process_article_def objects_get_def full_clean_def 1 save_fixed
          fingerprint_not_Nil)
qed

text \<open>
  Claim C9, amended. The slug that \<^verbatim>\<open>_create_slug\<close> derives before disambiguation is
  the title in lowercase, without the characters outside lowercase letters, digits, white
  space and hyphen, with every run of white space replaced by one hyphen, without leading and
  trailing hyphens, cut to 50 characters; it has at most 50 characters, all of them lowercase
  letters, digits or hyphens. Here the replacement of white space leaves a text without white
  space as it is and puts one hyphen for a maximal run of white space between two texts, and
  the stripping of hyphens removes a block of hyphens at each end and leaves a text that,
  unless it is empty, neither starts nor ends with a hyphen. The slug returned is carried by
  no stored article; it is the base slug when that is free, and otherwise the base slug with
  the suffix \<open>-k\<close> for the least \<open>k \<ge> 1\<close> such that the suffixes \<open>-1\<close>, ...,
  \<open>-(k-1)\<close> are all taken. An article that is created is stored with this slug when it is
  not empty, and it then differs from the slug of every article stored before; when it is
  empty, the article is stored with the slug that the framework generates from the title.
\<close>

theorem create_slug_spec:
  "base_slug t = spec_slugify t
   \<and> ((\<forall>c \<in> set s. \<not> is_space c) \<longrightarrow> sub_spaces s = s)
   \<and> (ws \<noteq> [] \<and> (\<forall>c \<in> set ws. is_space c)
        \<and> (xs = [] \<or> \<not> is_space (last xs)) \<and> (ys = [] \<or> \<not> is_space (hd ys)) \<longrightarrow>
        sub_spaces (xs @ ws @ ys) = sub_spaces xs @ ''-'' @ sub_spaces ys)
   \<and> (\<exists>p q. s = p @ strip_hyphens s @ q \<and> set p \<subseteq> {CHR ''-''} \<and> set q \<subseteq> {CHR ''-''})
   \<and> (strip_hyphens s \<noteq> [] \<longrightarrow>
        hd (strip_hyphens s) \<noteq> CHR ''-'' \<and> last (strip_hyphens s) \<noteq> CHR ''-'')
   \<and> length (base_slug t) \<le> 50
   \<and> (\<forall>c \<in> set (base_slug t). spec_class c \<and> \<not> is_space c)
   \<and> \<not> slug_exists rows (create_slug rows t)
   \<and> (\<not> slug_exists rows (base_slug t) \<longrightarrow> create_slug rows t = base_slug t)
   \<and> (slug_exists rows (base_slug t) \<longrightarrow>
        (\<exists>k \<ge> 1. create_slug rows t = numbered (base_slug t) k
           \<and> (\<forall>j. 1 \<le> j \<and> j < k \<longrightarrow> slug_exists rows (numbered (base_slug t) j))))
   \<and> (process_article fw st d fu = Inr (Created, st') \<longrightarrow>
        (\<exists>a. articles st' = articles st @ [a]
           \<and> slug a = (if create_slug (articles st) (ad_title d) = []
                       then autoslug fw (articles st) (ad_title d)
                       else create_slug (articles st) (ad_title d))
           \<and> (create_slug (articles st) (ad_title d) \<noteq> [] \<longrightarrow>
                (\<forall>x \<in> set (articles st). slug x \<noteq> slug a))))"
proof -
  have c1: "base_slug t = spec_slugify t" by (rule base_slug_spec)
  have c2: "(\<forall>c \<in> set s. \<not> is_space c) \<longrightarrow> sub_spaces s = s"
    by (rule impI) (rule sub_spaces_no_space)
  have c3: "ws \<noteq> [] \<and> (\<forall>c \<in> set ws. is_space c)
        \<and> (xs = [] \<or> \<not> is_space (last xs)) \<and> (ys = [] \<or> \<not> is_space (hd ys)) \<longrightarrow>
        sub_spaces (xs @ ws @ ys) = sub_spaces xs @ ''-'' @ sub_spaces ys"
  proof
    assume h: "ws \<noteq> [] \<and> (\<forall>c \<in> set ws. is_space c)
        \<and> (xs = [] \<or> \<not> is_space (last xs)) \<and> (ys = [] \<or> \<not> is_space (hd ys))"
    from h have 1: "ws \<noteq> []" by (rule conjunct1)
    from h have 2: "\<forall>c \<in> set ws. is_space c" by (rule conjunct2 [THEN conjunct1])
    from h have 3: "xs = [] \<or> \<not> is_space (last xs)"
      by (rule conjunct2 [THEN conjunct2, THEN conjunct1])
    from h have 4: "ys = [] \<or> \<not> is_space (hd ys)"
      by (rule conjunct2 [THEN conjunct2, THEN conjunct2])
    show "sub_spaces (xs @ ws @ ys) = sub_spaces xs @ ''-'' @ sub_spaces ys"
      by (rule sub_spaces_run [OF 1 2 4 3])
  qed
  have c4: "\<exists>p q. s = p @ strip_hyphens s @ q \<and> set p \<subseteq> {CHR ''-''} \<and> set q \<subseteq> {CHR ''-''}"
    by (rule strip_hyphens_parts)
  have c5: "strip_hyphens s \<noteq> [] \<longrightarrow>
        hd (strip_hyphens s) \<noteq> CHR ''-'' \<and> last (strip_hyphens s) \<noteq> CHR ''-''"
  proof
    assume n: "strip_hyphens s \<noteq> []"
    show "hd (strip_hyphens s) \<noteq> CHR ''-'' \<and> last (strip_hyphens s) \<noteq> CHR ''-''"
      by (rule conjI [OF strip_hyphens_ends(1) [OF n] strip_hyphens_ends(2) [OF n]])
  qed
  have c6: "length (base_slug t) \<le> 50" by (simp add: base_slug_def)
  have c7: "\<forall>c \<in> set (base_slug t). spec_class c \<and> \<not> is_space c"
  proof
    fix c assume "c \<in> set (base_slug t)"
    from base_slug_chars [OF this] show "spec_class c \<and> \<not> is_space c" by simp
  qed
  have c8: "\<not> slug_exists rows (create_slug rows t)"
    by (simp add: create_slug_def Let_def unique_slug_fresh)
  have c9: "\<not> slug_exists rows (base_slug t) \<longrightarrow> create_slug rows t = base_slug t"
    by (simp add: create_slug_def Let_def unique_slug_free)
  have c10: "slug_exists rows (base_slug t) \<longrightarrow>
        (\<exists>k \<ge> 1. create_slug rows t = numbered (base_slug t) k
           \<and> (\<forall>j. 1 \<le> j \<and> j < k \<longrightarrow> slug_exists rows (numbered (base_slug t) j)))"
  proof
    assume e: "slug_exists rows (base_slug t)"
    show "\<exists>k \<ge> 1. create_slug rows t = numbered (base_slug t) k
           \<and> (\<forall>j. 1 \<le> j \<and> j < k \<longrightarrow> slug_exists rows (numbered (base_slug t) j))"
      using unique_slug_first [OF e, of 1 "base_slug t"]
      by (simp add: create_slug_def Let_def)
  qed
  have c11: "process_article fw st d fu = Inr (Created, st') \<longrightarrow>
        (\<exists>a. articles st' = articles st @ [a]
           \<and> slug a = (if create_slug (articles st) (ad_title d) = []
                       then autoslug fw (articles st) (ad_title d)
                       else create_slug (articles st) (ad_title d))
           \<and> (create_slug (articles st) (ad_title d) \<noteq> [] \<longrightarrow>
                (\<forall>x \<in> set (articles st). slug x \<noteq> slug a)))"
  proof
    assume c: "process_article fw st d fu = Inr (Created, st')"
    from process_article_Created(1) [OF c] obtain a
      where a: "articles st' = articles st @ [a]"
        and s: "slug a = (if create_slug (articles st) (ad_title d) = []
                          then autoslug fw (articles st) (ad_title d)
                          else create_slug (articles st) (ad_title d))"
      by auto
    have "\<forall>x \<in> set (articles st). slug x \<noteq> slug a"
      if n: "create_slug (articles st) (ad_title d) \<noteq> []"
    proof -
      from n s have "slug a = create_slug (articles st) (ad_title d)" by simp
      then have "\<not> slug_exists (articles st) (slug a)"
        by (simp add: create_slug_def Let_def unique_slug_fresh)
      then show ?thesis by (simp add: slug_exists_def)
    qed
    with a s show "\<exists>a. articles st' = articles st @ [a]
             \<and> slug a = (if create_slug (articles st) (ad_title d) = []
                         then autoslug fw (articles st) (ad_title d)
                         else create_slug (articles st) (ad_title d))
             \<and> (create_slug (articles st) (ad_title d) \<noteq> [] \<longrightarrow>
                  (\<forall>x \<in> set (articles st). slug x \<noteq> slug a))"
      by blast
  qed
  show ?thesis
    by (rule conjI [OF c1 conjI [OF c2 conjI [OF c3 conjI [OF c4 conjI [OF c5 conjI [OF c6
          conjI [OF c7 conjI [OF c8 conjI [OF c9 conjI [OF c10 c11]]]]]]]]]])
qed

text \<open>
  The amended statement at a title with capitals, two spaces and punctuation, at the title
  \<^verbatim>\<open>foo\<close> when the slug \<^verbatim>\<open>foo\<close> is taken, at the creation of an article with that
  title, and at texts with a run of two spaces and with hyphens at both ends.
\<close>

theorem create_slug_spec_witness:
  "create_slug [] ''Foo  Bar!'' = ''foo-bar''
   \<and> create_slug [\<lparr>title = ''Foo'', summary = ''s'', source_url = ''https://example.com/f'',
                    source_name = ''n'', publication_date = 0, content_hash = ''0f'',
                    slug = ''foo''\<rparr>] ''foo'' = ''foo-1''
   \<and> (\<exists>a. articles (snd (projr (process_article
              \<lparr>autoslug = (\<lambda>rows t. t), validate = (\<lambda>rows a. None),
               validate_list_page = (\<lambda>st root. None)\<rparr>
              \<lparr>default_sites = [2], list_pages = [2],
               articles = [\<lparr>title = ''Foo'', summary = ''s'',
                            source_url = ''https://example.com/f'', source_name = ''n'',
                            publication_date = 0, content_hash = ''0f'', slug = ''foo''\<rparr>]\<rparr>
              \<lparr>ad_title = ''foo'', ad_summary = ''s'', ad_source_url = ''https://example.com/g'',
               ad_source_name = ''n'', ad_publication_date = Some 0\<rparr> False)))
          = [\<lparr>title = ''Foo'', summary = ''s'',
               source_url = ''https://example.com/f'', source_name = ''n'',
               publication_date = 0, content_hash = ''0f'', slug = ''foo''\<rparr>] @ [a]
          \<and> slug a = ''foo-1'')
   \<and> sub_spaces ''foo'' = ''foo''
   \<and> sub_spaces ''foo  bar'' = ''foo-bar''
   \<and> (\<exists>p q. ''--foo-bar-'' = p @ ''foo-bar'' @ q \<and> set p \<subseteq> {CHR ''-''} \<and> set q \<subseteq> {CHR ''-''})
   \<and> hd (strip_hyphens ''--foo-bar-'') \<noteq> CHR ''-''
   \<and> last (strip_hyphens ''--foo-bar-'') \<noteq> CHR ''-''"
proof -
  let ?row = "\<lparr>title = ''Foo'', summary = ''s'', source_url = ''https://example.com/f'',
               source_name = ''n'', publication_date = 0, content_hash = ''0f'',
               slug = ''foo''\<rparr>"
  let ?fw = "\<lparr>autoslug = (\<lambda>rows t. t), validate = (\<lambda>rows a. None),
              validate_list_page = (\<lambda>st root. None)\<rparr>"
  let ?st = "\<lparr>default_sites = [2], list_pages = [2], articles = [?row]\<rparr>"
  let ?d = "\<lparr>ad_title = ''foo'', ad_summary = ''s'', ad_source_url = ''https://example.com/g'',
             ad_source_name = ''n'', ad_publication_date = Some 0\<rparr>"
  have b1: "base_slug ''Foo  Bar!'' = ''foo-bar''"
    by (simp add: slug_eval)
  have b2: "base_slug ''foo'' = ''foo''"
    by (simp add: slug_eval)
  have f1: "\<not> slug_exists [] (base_slug ''Foo  Bar!'')"
    by (simp add: slug_exists_def)
  have f2: "slug_exists [?row] (base_slug ''foo'')"
    by (simp add: slug_exists_def b2)
  have n1: "numbered ''foo'' 1 = ''foo-1''"
    by (simp add: numbered_def str_nat.simps [of "Suc 0"] digit_char_def char_of_def bit_Suc_0_iff)
  from create_slug_spec [of "''Foo  Bar!''" _ _ _ _ "[]", THEN conjunct2, THEN conjunct2,
         THEN conjunct2, THEN conjunct2, THEN conjunct2, THEN conjunct2, THEN conjunct2,
         THEN conjunct2, THEN conjunct1, rule_format, OF f1] b1
  have w1: "create_slug [] ''Foo  Bar!'' = ''foo-bar''" by simp
  from create_slug_spec [of "''foo''" _ _ _ _ "[?row]", THEN conjunct2, THEN conjunct2,
         THEN conjunct2, THEN conjunct2, THEN conjunct2, THEN conjunct2, THEN conjunct2,
         THEN conjunct2, THEN conjunct2, THEN conjunct1, rule_format, OF f2]
  obtain k where k: "1 \<le> k" and e: "create_slug [?row] ''foo'' = numbered ''foo'' k"
    and a: "\<forall>j. 1 \<le> j \<and> j < k \<longrightarrow> slug_exists [?row] (numbered ''foo'' j)"
    unfolding b2 by blast
  have nf: "\<not> slug_exists [?row] (numbered ''foo'' 1)"
    unfolding n1 by (simp add: slug_exists_def)
  have "k = 1"
  proof (rule ccontr)
    assume "k \<noteq> 1"
    with k have "1 \<le> (1::nat) \<and> 1 < k" by simp
    then have "slug_exists [?row] (numbered ''foo'' 1)" by (rule a [rule_format])
    with nf show False ..
  qed
  with e n1 have w2: "create_slug [?row] ''foo'' = ''foo-1''" by simp
  have g: "objects_get [?row] (fingerprint ?d) = Inr None"
    using fingerprint_not_0f [of ?d] by (auto simp: objects_get_def)
  have c: "process_article ?fw ?st ?d False
           = Inr (Created, ?st\<lparr>articles := [?row, \<lparr>title = ''foo'', summary = ''s'',
               source_url = ''https://example.com/g'', source_name = ''n'',
               publication_date = 0, content_hash = fingerprint ?d, slug = ''foo-1''\<rparr>]\<rparr>)"
    using g by (simp add: process_article_def full_clean_def w2 save_fixed fingerprint_not_Nil)
  from create_slug_spec [where fw = ?fw and st = ?st and d = ?d and fu = False,
         THEN conjunct2, THEN conjunct2, THEN conjunct2, THEN conjunct2, THEN conjunct2,
         THEN conjunct2, THEN conjunct2, THEN conjunct2, THEN conjunct2, THEN conjunct2,
         rule_format, OF c]
  have w3: "\<exists>a. articles (snd (projr (process_article ?fw ?st ?d False))) = [?row] @ [a]
          \<and> slug a = ''foo-1''"
    unfolding c by (auto simp: w2)
  have s1: "\<forall>c \<in> set ''foo''. \<not> is_space c" by (simp add: is_space_def)
  have s2: "\<forall>c \<in> set ''bar''. \<not> is_space c" by (simp add: is_space_def)
  from create_slug_spec [where s = "''foo''", THEN conjunct2, THEN conjunct1, THEN mp, OF s1]
  have w4: "sub_spaces ''foo'' = ''foo''" .
  from create_slug_spec [where s = "''bar''", THEN conjunct2, THEN conjunct1, THEN mp, OF s2]
  have w4b: "sub_spaces ''bar'' = ''bar''" .
  have r: "''  '' \<noteq> [] \<and> (\<forall>c \<in> set ''  ''. is_space c)
        \<and> (''foo'' = [] \<or> \<not> is_space (last ''foo''))
        \<and> (''bar'' = [] \<or> \<not> is_space (hd ''bar''))"
    by (simp add: is_space_def)
  from create_slug_spec [where ws = "''  ''" and xs = "''foo''" and ys = "''bar''",
         THEN conjunct2, THEN conjunct2, THEN conjunct1, THEN mp, OF r]
  have w5: "sub_spaces ''foo  bar'' = ''foo-bar''"
    unfolding w4 w4b by simp
  have h: "strip_hyphens ''--foo-bar-'' = ''foo-bar''"
    by (simp add: strip_hyphens_def)
  from create_slug_spec [where s = "''--foo-bar-''", THEN conjunct2, THEN conjunct2,
         THEN conjunct2, THEN conjunct1]
  have w6: "\<exists>p q. ''--foo-bar-'' = p @ ''foo-bar'' @ q
              \<and> set p \<subseteq> {CHR ''-''} \<and> set q \<subseteq> {CHR ''-''}"
    unfolding h .
  have ne: "strip_hyphens ''--foo-bar-'' \<noteq> []"
    unfolding h by simp
  from create_slug_spec [where s = "''--foo-bar-''", THEN conjunct2, THEN conjunct2,
         THEN conjunct2, THEN conjunct2, THEN conjunct1, THEN mp, OF ne]
  have w7: "hd (strip_hyphens ''--foo-bar-'') \<noteq> CHR ''-''
            \<and> last (strip_hyphens ''--foo-bar-'') \<noteq> CHR ''-''" .
  show ?thesis
    by (rule conjI [OF w1 conjI [OF w2 conjI [OF w3 conjI [OF w4 conjI [OF w5 conjI [OF w6 w7]]]]]])
qed





end
